theory Spec2Isabelle
  imports
    Main
    "HOL-Library.Word"
    "HOL-Library.AList"
    "HOL-Library.Char_ord"
    "HOL-Library.List_Lexorder"
begin

section \<open>The response envelope\<close>

text \<open>
  Every tool of \<^verbatim>\<open>local_server.py\<close> answers with a dict that is either
  \<^verbatim>\<open>{"success": True, ...}\<close> or \<^verbatim>\<open>{"success": False, "error": msg}\<close>.
  The operation-specific fields of the first shape are the payload \<open>'a\<close>.
  Calls to \<^verbatim>\<open>logger\<close> do not influence any returned value or the cache; they are
  modelled only in \<open>read_credentials\<close>, where the log is what a property is about.
\<close>

datatype 'a envelope = Success 'a | Failure string

type_synonym byte = "8 word"

section \<open>Decimal rendering of integers\<close>

text \<open>Python's \<^verbatim>\<open>str(n)\<close> on an int, as used by the f-strings of the server.\<close>

definition digit :: "nat \<Rightarrow> char" where
  "digit d = ''0123456789'' ! d"

fun str_nat :: "nat \<Rightarrow> string" where
  "str_nat n = (if n < 10 then [digit n] else str_nat (n div 10) @ [digit (n mod 10)])"

declare str_nat.simps [simp del]

definition str_int :: "int \<Rightarrow> string" where
  "str_int i = (if i < 0 then CHR ''-'' # str_nat (nat (- i)) else str_nat (nat i))"

text \<open>Two-digit and four-digit zero-padded fields of \<^verbatim>\<open>strftime\<close>.\<close>

definition dig2 :: "nat \<Rightarrow> string" where
  "dig2 n = [digit (n div 10 mod 10), digit (n mod 10)]"

definition dig4 :: "nat \<Rightarrow> string" where
  "dig4 n = [digit (n div 1000 mod 10), digit (n div 100 mod 10), digit (n div 10 mod 10), digit (n mod 10)]"

section \<open>datetime and timedelta\<close>

text \<open>
  A naive \<^verbatim>\<open>datetime\<close> as Python stores it: calendar fields down to the microsecond.
  \<open>valid_datetime\<close> is the range invariant of the class; the day-of-month bound is the
  month's length.
\<close>

record datetime =
  year :: nat
  month :: nat
  day :: nat
  hour :: nat
  minute :: nat
  second :: nat
  microsecond :: nat

definition is_leap :: "nat \<Rightarrow> bool" where
  "is_leap y = (y mod 4 = 0 \<and> (y mod 100 \<noteq> 0 \<or> y mod 400 = 0))"

definition days_in_month :: "nat \<Rightarrow> nat \<Rightarrow> nat" where
  "days_in_month y m =
     (if m = 2 then (if is_leap y then 29 else 28)
      else if m = 4 \<or> m = 6 \<or> m = 9 \<or> m = 11 then 30 else 31)"

definition valid_datetime :: "datetime \<Rightarrow> bool" where
  "valid_datetime d =
     (1 \<le> year d \<and> year d \<le> 9999 \<and> 1 \<le> month d \<and> month d \<le> 12 \<and>
      1 \<le> day d \<and> day d \<le> days_in_month (year d) (month d) \<and>
      hour d < 24 \<and> minute d < 60 \<and> second d < 60 \<and> microsecond d < 1000000)"

definition days_before_year :: "nat \<Rightarrow> int" where
  "days_before_year y =
     (let z = int y - 1 in z * 365 + z div 4 - z div 100 + z div 400)"

definition days_before_month :: "nat \<Rightarrow> nat \<Rightarrow> int" where
  "days_before_month y m =
     int ([0, 0, 31, 59, 90, 120, 151, 181, 212, 243, 273, 304, 334] ! m)
       + (if m > 2 \<and> is_leap y then 1 else 0)"

definition toordinal :: "datetime \<Rightarrow> int" where
  "toordinal d = days_before_year (year d) + days_before_month (year d) (month d) + int (day d)"

text \<open>
  \<^verbatim>\<open>timedelta(days, seconds, microseconds)\<close> normalises its arguments so that
  \<open>0 \<le> seconds < 86400\<close> and \<open>0 \<le> microseconds < 10^6\<close>; only \<open>days\<close> carries the sign.
\<close>

record timedelta =
  td_days :: int
  td_seconds :: int
  td_microseconds :: int

definition mk_timedelta :: "int \<Rightarrow> int \<Rightarrow> int \<Rightarrow> timedelta" where
  "mk_timedelta ds ss us =
     (let total = (ds * 86400 + ss) * 1000000 + us in
      \<lparr> td_days = total div 86400000000,
        td_seconds = total div 1000000 mod 86400,
        td_microseconds = total mod 1000000 \<rparr>)"

definition day_seconds :: "datetime \<Rightarrow> int" where
  "day_seconds d = int (second d) + int (minute d) * 60 + int (hour d) * 3600"

text \<open>\<^verbatim>\<open>datetime.__sub__\<close> on two naive datetimes.\<close>

definition dt_sub :: "datetime \<Rightarrow> datetime \<Rightarrow> timedelta" where
  "dt_sub a b =
     mk_timedelta (toordinal a - toordinal b) (day_seconds a - day_seconds b)
       (int (microsecond a) - int (microsecond b))"

text \<open>The elapsed time between two datetimes in microseconds (what \<open>a - b\<close> denotes).\<close>

definition elapsed_us :: "datetime \<Rightarrow> datetime \<Rightarrow> int" where
  "elapsed_us a b =
     ((toordinal a - toordinal b) * 86400 + (day_seconds a - day_seconds b)) * 1000000
       + (int (microsecond a) - int (microsecond b))"

text \<open>\<^verbatim>\<open>strftime('%Y%m%d_%H%M%S')\<close>, every field zero-padded to its width.\<close>

definition strftime_stamp :: "datetime \<Rightarrow> string" where
  "strftime_stamp d =
     dig4 (year d) @ dig2 (month d) @ dig2 (day d) @ ''_'' @
     dig2 (hour d) @ dig2 (minute d) @ dig2 (second d)"

section \<open>Library functions the server calls\<close>

text \<open>
  The server relies on functions of the Python runtime and of third-party packages
  whose results the model takes as given:
  \<^item> \<open>py_hash\<close>: the per-process \<^verbatim>\<open>hash\<close> of a string;
  \<^item> \<open>path_str\<close>: \<^verbatim>\<open>str(Path(s))\<close>, the path in pathlib's normal form;
  \<^item> \<open>path_match\<close>: \<^verbatim>\<open>PurePath.match\<close>, which raises \<^verbatim>\<open>ValueError\<close> on an
    unacceptable pattern;
  \<^item> \<open>fmt_mb\<close> and \<open>round_mb\<close>: the float renderings \<^verbatim>\<open>f"{n/1024/1024:.1f}"\<close> and
    \<^verbatim>\<open>round(n/1024/1024, 2)\<close>;
  \<^item> \<open>codec_lookup\<close>: the text codec of an encoding name (\<^verbatim>\<open>LookupError\<close> for an
    unknown one); decoding with a codec gives the text, raises
    \<^verbatim>\<open>UnicodeDecodeError\<close>, or raises another exception (the \<^verbatim>\<open>punycode\<close> and
    \<^verbatim>\<open>undefined\<close> codecs raise a plain \<^verbatim>\<open>UnicodeError\<close>);
  \<^item> \<open>re_sub\<close>: \<^verbatim>\<open>re.sub(pattern, repl, text, flags=re.IGNORECASE)\<close>;
  \<^item> \<open>analyze_csv\<close> and \<open>analyze_json\<close>: what the pandas and json branches of
    \<^verbatim>\<open>validate_dataset\<close> report for a file (the csv branch can end without a
    \<^verbatim>\<open>return\<close>, which is \<open>None\<close>).
  An exception is carried as \<open>Inl\<close> of its message.
\<close>

datatype decoding = Decoded string | UnicodeDecodeError | DecodingRaised string

record pylib =
  py_hash :: "string \<Rightarrow> int"
  path_str :: "string \<Rightarrow> string"
  path_match :: "string \<Rightarrow> string \<Rightarrow> string + bool"
  fmt_mb :: "nat \<Rightarrow> string"
  round_mb :: "nat \<Rightarrow> string"
  codec_lookup :: "string \<Rightarrow> string + (byte list \<Rightarrow> decoding)"
  re_sub :: "string \<Rightarrow> string \<Rightarrow> string \<Rightarrow> string"
  analyze_csv :: "string \<Rightarrow> string + string option"
  analyze_json :: "string \<Rightarrow> string + string"

section \<open>Base64 (\<^verbatim>\<open>base64.b64encode\<close>, \<^verbatim>\<open>base64.b64decode\<close>)\<close>

definition b64_alphabet :: string where
  "b64_alphabet = ''ABCDEFGHIJKLMNOPQRSTUVWXYZabcdefghijklmnopqrstuvwxyz0123456789+/''"

definition table_b2a_base64 :: "nat \<Rightarrow> char" where
  "table_b2a_base64 n = b64_alphabet ! n"

fun index_of :: "'a \<Rightarrow> 'a list \<Rightarrow> nat option" where
  "index_of x [] = None"
| "index_of x (y # ys) = (if x = y then Some 0 else map_option Suc (index_of x ys))"

text \<open>The decoding table: the 6-bit value of an alphabet character, \<open>None\<close> for any other.\<close>

definition table_a2b_base64 :: "char \<Rightarrow> nat option" where
  "table_a2b_base64 c = index_of c b64_alphabet"

text \<open>
  \<^verbatim>\<open>b64encode\<close>: every three bytes give four 6-bit groups; a tail of one or two bytes is
  padded with \<^verbatim>\<open>=\<close>.
\<close>

fun b64encode :: "byte list \<Rightarrow> string" where
  "b64encode [] = []"
| "b64encode [a] =
     [table_b2a_base64 (unat a div 4), table_b2a_base64 (unat a mod 4 * 16), CHR ''='', CHR ''='']"
| "b64encode [a, b] =
     [table_b2a_base64 (unat a div 4),
      table_b2a_base64 (unat a mod 4 * 16 + unat b div 16),
      table_b2a_base64 (unat b mod 16 * 4), CHR ''='']"
| "b64encode (a # b # c # rest) =
     [table_b2a_base64 (unat a div 4),
      table_b2a_base64 (unat a mod 4 * 16 + unat b div 16),
      table_b2a_base64 (unat b mod 16 * 4 + unat c div 64),
      table_b2a_base64 (unat c mod 64)] @ b64encode rest"

text \<open>
  \<^verbatim>\<open>binascii.a2b_base64\<close> in its default, non-strict mode: a loop over the characters
  with the position in the current quad, the bits left over from the previous character
  and the count of padding characters seen; characters outside the alphabet are skipped,
  a complete pad sequence ends the parse, and data that stops inside a quad is an error.
\<close>

fun a2b_base64 :: "nat \<Rightarrow> nat \<Rightarrow> nat \<Rightarrow> byte list \<Rightarrow> string \<Rightarrow> string + byte list" where
  "a2b_base64 quad_pos leftchar pads out [] =
     (if quad_pos \<noteq> 0 then
        (if quad_pos = 1
         then Inl (''Invalid base64-encoded string: number of data characters ('' @
                   str_nat (length out div 3 * 4 + 1) @ '') cannot be 1 more than a multiple of 4'')
         else Inl ''Incorrect padding'')
      else Inr out)"
| "a2b_base64 quad_pos leftchar pads out (this_ch # rest) =
     (if this_ch = CHR ''='' then
        (if quad_pos \<ge> 2 \<and> quad_pos + (pads + 1) \<ge> 4 then Inr out
         else a2b_base64 quad_pos leftchar (if quad_pos \<ge> 2 then pads + 1 else pads) out rest)
      else
        (case table_a2b_base64 this_ch of
           None \<Rightarrow> a2b_base64 quad_pos leftchar pads out rest
         | Some v \<Rightarrow>
             (if quad_pos = 0 then a2b_base64 1 v 0 out rest
              else if quad_pos = 1 then
                a2b_base64 2 (v mod 16) 0 (out @ [of_nat (leftchar * 4 + v div 16)]) rest
              else if quad_pos = 2 then
                a2b_base64 3 (v mod 4) 0 (out @ [of_nat (leftchar * 16 + v div 4)]) rest
              else a2b_base64 0 0 0 (out @ [of_nat (leftchar * 64 + v)]) rest)))"

text \<open>\<^verbatim>\<open>b64decode\<close> of a \<^verbatim>\<open>str\<close>: the string must be ASCII, then the loop above runs.\<close>

definition b64decode :: "string \<Rightarrow> string + byte list" where
  "b64decode s =
     (if list_ex (\<lambda>c. of_char c \<ge> (128::nat)) s
      then Inl ''string argument should contain only ASCII characters''
      else a2b_base64 0 0 0 [] s)"

section \<open>The cache and \<^verbatim>\<open>prepare_local_folder\<close>\<close>

text \<open>
  A value of \<^verbatim>\<open>data_cache\<close>. \<open>'s\<close> is whatever \<^verbatim>\<open>analyze_folder\<close> of the module
  \<^verbatim>\<open>file_handler\<close> returns; \<open>file_contents\<close> is a dict in insertion order.
\<close>

record 's cache_entry =
  folder_structure :: 's
  file_contents :: "(string \<times> string) list"
  timestamp :: datetime
  source_path :: string

type_synonym 's data_cache = "string \<rightharpoonup> 's cache_entry"

definition cache_timeout :: int where
  "cache_timeout = 3600"

text \<open>
  What the file system answers for one path that \<^verbatim>\<open>path.rglob("*")\<close> yields:
  \<^verbatim>\<open>str(file_path)\<close>, \<^verbatim>\<open>str(file_path.relative_to(path))\<close>, \<^verbatim>\<open>is_file()\<close>,
  \<^verbatim>\<open>stat().st_size\<close> and \<^verbatim>\<open>read_bytes()\<close>.
\<close>

record fs_entry =
  e_path :: string
  e_rel :: string
  e_is_file :: bool
  e_size :: "string + nat"
  e_bytes :: "string + byte list"

text \<open>What the file system answers for the folder itself.\<close>

record 's folder_view =
  fv_exists :: bool
  fv_is_dir :: bool
  fv_analysis :: "string + 's"
  fv_rglob :: "fs_entry list"

text \<open>\<^verbatim>\<open>any(file_path.match(pattern) for pattern in skip_patterns)\<close>.\<close>

fun any_match :: "(string \<Rightarrow> string + bool) \<Rightarrow> string list \<Rightarrow> string + bool" where
  "any_match m [] = Inr False"
| "any_match m (p # ps) =
     (case m p of Inl e \<Rightarrow> Inl e | Inr True \<Rightarrow> Inr True | Inr False \<Rightarrow> any_match m ps)"

text \<open>The \<^verbatim>\<open>TypeError\<close> of comparing an int with \<^verbatim>\<open>None\<close>, as in \<^verbatim>\<open>file_size > None\<close>.\<close>

definition none_comparison_error :: "string \<Rightarrow> string" where
  "none_comparison_error opr =
     [CHR 0x27] @ opr @ [CHR 0x27] @ '' not supported between instances of '' @
     [CHR 0x27] @ ''int'' @ [CHR 0x27] @ '' and '' @ [CHR 0x27] @ ''NoneType'' @ [CHR 0x27]"

text \<open>
  The test \<^verbatim>\<open>if skip_patterns: if any(...)\<close>: \<^verbatim>\<open>None\<close> and the empty list skip nothing.
\<close>

definition skip_check :: "pylib \<Rightarrow> string list option \<Rightarrow> fs_entry \<Rightarrow> string + bool" where
  "skip_check L skip_patterns f =
     (case skip_patterns of
        None \<Rightarrow> Inr False
      | Some ps \<Rightarrow> if ps = [] then Inr False else any_match (path_match L (e_path f)) ps)"

text \<open>The three accumulators of the loop over the files.\<close>

record scan_state =
  st_contents :: "(string \<times> string) list"
  st_total :: nat
  st_skipped :: "string list"

fun scan_files ::
  "pylib \<Rightarrow> int option \<Rightarrow> string list option \<Rightarrow> fs_entry list \<Rightarrow> scan_state \<Rightarrow> string + scan_state"
where
  "scan_files L max_file_size skip_patterns [] st = Inr st"
| "scan_files L max_file_size skip_patterns (f # fs) st =
     (if e_is_file f then
        (case skip_check L skip_patterns f of
           Inl e \<Rightarrow> Inl e
         | Inr True \<Rightarrow>
             scan_files L max_file_size skip_patterns fs
               (st\<lparr>st_skipped := st_skipped st @ [e_path f]\<rparr>)
         | Inr False \<Rightarrow>
             (case e_size f of
                Inl e \<Rightarrow> Inl e
              | Inr file_size \<Rightarrow>
                  (case max_file_size of
                     None \<Rightarrow> Inl (none_comparison_error ''>'')
                   | Some m \<Rightarrow>
                       if int file_size > m then
                         scan_files L max_file_size skip_patterns fs
                           (st\<lparr>st_skipped := st_skipped st @
                              [e_path f @ '' (too large: '' @ fmt_mb L file_size @ ''MB)'']\<rparr>)
                       else
                         (case e_bytes f of
                            Inl e \<Rightarrow>
                              scan_files L max_file_size skip_patterns fs
                                (st\<lparr>st_skipped := st_skipped st @
                                   [e_path f @ '' (error: '' @ e @ '')'']\<rparr>)
                          | Inr content \<Rightarrow>
                              scan_files L max_file_size skip_patterns fs
                                (st\<lparr>st_contents :=
                                      AList.update (e_rel f) (b64encode content) (st_contents st),
                                    st_total := st_total st + file_size\<rparr>)))))
      else scan_files L max_file_size skip_patterns fs st)"

record summary =
  total_files :: nat
  total_size :: nat
  total_size_mb :: string
  skipped_files :: nat
  skipped_details :: "string list"

record prepared =
  cache_id :: string
  summary :: summary

definition make_cache_id :: "pylib \<Rightarrow> datetime \<Rightarrow> string \<Rightarrow> string" where
  "make_cache_id L now folder_path =
     ''folder_'' @ strftime_stamp now @ ''_'' @ str_int (py_hash L folder_path)"

text \<open>
  \<open>now_id\<close> and \<open>now_ts\<close> are the two readings of \<^verbatim>\<open>datetime.now()\<close>: the first goes
  into the cache id, the second is the entry's timestamp.
\<close>

definition prepare_local_folder ::
  "pylib \<Rightarrow> (string \<Rightarrow> 's folder_view) \<Rightarrow> datetime \<Rightarrow> datetime \<Rightarrow> 's data_cache \<Rightarrow>
   string \<Rightarrow> int option \<Rightarrow> string list option \<Rightarrow> prepared envelope \<times> 's data_cache"
where
  "prepare_local_folder L fs now_id now_ts data_cache folder_path max_file_size skip_patterns =
     (let path = fs folder_path in
      if \<not> fv_exists path then (Failure (''Path not found: '' @ folder_path), data_cache)
      else if \<not> fv_is_dir path then (Failure (''Not a directory: '' @ folder_path), data_cache)
      else
        (case fv_analysis path of
           Inl e \<Rightarrow> (Failure e, data_cache)
         | Inr structure \<Rightarrow>
             (case scan_files L max_file_size skip_patterns (fv_rglob path)
                     \<lparr>st_contents = [], st_total = 0, st_skipped = []\<rparr> of
                Inl e \<Rightarrow> (Failure e, data_cache)
              | Inr st \<Rightarrow>
                  (let cid = make_cache_id L now_id folder_path in
                   (Success
                      \<lparr>cache_id = cid,
                       summary =
                         \<lparr>total_files = length (st_contents st),
                          total_size = st_total st,
                          total_size_mb = round_mb L (st_total st),
                          skipped_files = length (st_skipped st),
                          skipped_details = take 10 (st_skipped st)\<rparr>\<rparr>,
                    data_cache(cid \<mapsto>
                      \<lparr>folder_structure = structure,
                       file_contents = st_contents st,
                       timestamp = now_ts,
                       source_path = folder_path\<rparr>))))))"

section \<open>\<^verbatim>\<open>get_cached_data\<close>\<close>

record 's cached_data =
  got_folder_structure :: 's
  got_file_contents :: "(string \<times> string) list"

definition get_cached_data ::
  "datetime \<Rightarrow> 's data_cache \<Rightarrow> string \<Rightarrow> 's cached_data envelope \<times> 's data_cache"
where
  "get_cached_data now data_cache cid =
     (case data_cache cid of
        None \<Rightarrow> (Failure (''Cache ID not found: '' @ cid), data_cache)
      | Some cached \<Rightarrow>
          (let age = td_seconds (dt_sub now (timestamp cached)) in
           if age > cache_timeout then
             (Failure (''Cache expired (age: '' @ str_int age @ ''s)''), data_cache(cid := None))
           else
             (Success
                \<lparr>got_folder_structure = folder_structure cached,
                 got_file_contents = file_contents cached\<rparr>,
              data_cache)))"


section \<open>\<^verbatim>\<open>explore_directory\<close>\<close>

text \<open>
  An exception that leaves \<^verbatim>\<open>explore_tree\<close>, with its message: the function catches
  \<^verbatim>\<open>PermissionError\<close> around the loop over the children and nothing else.
\<close>

datatype raised = PermissionError string | OtherError string

fun message :: "raised \<Rightarrow> string" where
  "message (PermissionError m) = m"
| "message (OtherError m) = m"

text \<open>
  The part of the file system under a path, as \<^verbatim>\<open>explore_tree\<close> sees it: a regular
  file with its name, \<^verbatim>\<open>st_size\<close> and \<^verbatim>\<open>st_mtime\<close>; a directory with what
  \<^verbatim>\<open>iterdir()\<close> yields (in the order of the operating system); a directory whose
  listing raises \<^verbatim>\<open>PermissionError\<close>; and a path on which \<^verbatim>\<open>is_file()\<close> raises, or
  which is no regular file and whose listing raises something other than
  \<^verbatim>\<open>PermissionError\<close>.
\<close>

datatype fs_tree =
    RegularFile string nat int
  | Directory string "fs_tree list"
  | Unlistable string
  | Raising string raised

fun p_name :: "fs_tree \<Rightarrow> string" where
  "p_name (RegularFile n sz mt) = n"
| "p_name (Directory n cs) = n"
| "p_name (Unlistable n) = n"
| "p_name (Raising n e) = n"

text \<open>The four dict shapes \<^verbatim>\<open>explore_tree\<close> returns.\<close>

datatype tree_node =
    FileNode string nat int string
  | DirNode string "tree_node list" nat
  | TruncatedNode string
  | DeniedNode string

text \<open>The value under the key \<^verbatim>\<open>"type"\<close>.\<close>

fun node_type :: "tree_node \<Rightarrow> string" where
  "node_type (FileNode n sz mt ext) = ''file''"
| "node_type (DirNode n cs k) = ''directory''"
| "node_type (TruncatedNode n) = ''directory''"
| "node_type (DeniedNode n) = ''directory''"

text \<open>\<^verbatim>\<open>str.rfind\<close> of one character and \<^verbatim>\<open>PurePath.suffix\<close> of a name.\<close>

definition rfind :: "char \<Rightarrow> string \<Rightarrow> nat option" where
  "rfind c s = map_option (\<lambda>j. length s - 1 - j) (index_of c (rev s))"

definition path_suffix :: "string \<Rightarrow> string" where
  "path_suffix name =
     (case rfind CHR ''.'' name of
        None \<Rightarrow> []
      | Some i \<Rightarrow> if 0 < i \<and> i < length name - 1 then drop i name else [])"

text \<open>
  The results of the recursive calls in order; the first exception ends the loop.
  The recursive calls stand inside the \<^verbatim>\<open>try\<close>, so a \<^verbatim>\<open>PermissionError\<close> that
  leaves one of them makes the directory itself a node with the error marker.
\<close>

fun collect :: "('e + 'a) list \<Rightarrow> 'e + 'a list" where
  "collect [] = Inr []"
| "collect (x # xs) =
     (case x of
        Inl e \<Rightarrow> Inl e
      | Inr v \<Rightarrow> (case collect xs of Inl e \<Rightarrow> Inl e | Inr vs \<Rightarrow> Inr (v # vs)))"

definition is_hidden :: "string \<Rightarrow> bool" where
  "is_hidden name = (take 1 name = ''.'')"

fun explore_tree :: "int \<Rightarrow> bool \<Rightarrow> fs_tree \<Rightarrow> nat \<Rightarrow> raised + tree_node" where
  "explore_tree max_depth include_hidden p current_depth =
     (if int current_depth \<ge> max_depth then Inr (TruncatedNode (p_name p))
      else
        (case p of
           RegularFile n sz mt \<Rightarrow> Inr (FileNode n sz mt (path_suffix n))
         | Directory n cs \<Rightarrow>
             (case collect
                     (map (\<lambda>child. explore_tree max_depth include_hidden child (current_depth + 1))
                        (filter (\<lambda>child. include_hidden \<or> \<not> is_hidden (p_name child))
                           (sort_key p_name cs))) of
                Inl (PermissionError m) \<Rightarrow> Inr (DeniedNode n)
              | Inl (OtherError m) \<Rightarrow> Inl (OtherError m)
              | Inr children \<Rightarrow> Inr (DirNode n children (length children)))
         | Unlistable n \<Rightarrow> Inr (DeniedNode n)
         | Raising n e \<Rightarrow> Inl e))"

record explored =
  tree :: tree_node
  base_path :: string

definition explore_directory ::
  "pylib \<Rightarrow> (string \<Rightarrow> fs_tree option) \<Rightarrow> string \<Rightarrow> int option \<Rightarrow> bool \<Rightarrow> explored envelope"
where
  "explore_directory L fs directory_path max_depth include_hidden =
     (case fs directory_path of
        None \<Rightarrow> Failure (''Path not found: '' @ directory_path)
      | Some p \<Rightarrow>
          (case max_depth of
             None \<Rightarrow> Failure (none_comparison_error ''>='')
           | Some md \<Rightarrow>
               (case explore_tree md include_hidden p 0 of
                  Inl e \<Rightarrow> Failure (message e)
                | Inr t \<Rightarrow> Success \<lparr>tree = t, base_path = path_str L directory_path\<rparr>)))"

section \<open>\<^verbatim>\<open>read_local_file\<close> and \<^verbatim>\<open>validate_dataset\<close>\<close>

record file_stat =
  st_size :: nat
  st_mtime :: int

text \<open>What the file system answers for one path.\<close>

record file_view =
  f_exists :: bool
  f_is_file :: bool
  f_stat :: "string + file_stat"
  f_read_bytes :: "string + byte list"

text \<open>The keys \<^verbatim>\<open>content\<close>, \<^verbatim>\<open>encoding\<close>, \<^verbatim>\<open>size\<close> and \<^verbatim>\<open>modified\<close> of the answer.\<close>

record file_read =
  content :: string
  encoding :: string
  size_bytes :: nat
  modified :: int

text \<open>
  The newline translation of a file opened in text mode: \<^verbatim>\<open>\r\n\<close> and a lone
  \<^verbatim>\<open>\r\<close> are read as \<^verbatim>\<open>\n\<close>.
\<close>

fun translate_newlines :: "string \<Rightarrow> string" where
  "translate_newlines [] = []"
| "translate_newlines [c] = [if c = CHR 0x0D then CHR 0x0A else c]"
| "translate_newlines (c # d # cs) =
     (if c = CHR 0x0D then
        (if d = CHR 0x0A then CHR 0x0A # translate_newlines cs
         else CHR 0x0A # translate_newlines (d # cs))
      else c # translate_newlines (d # cs))"

text \<open>
  \<^verbatim>\<open>path.read_text(encoding=encoding)\<close>: opening the file, then the codec lookup, then
  decoding what was read. An exception other than \<^verbatim>\<open>UnicodeDecodeError\<close> keeps its
  message.
\<close>

datatype text_read = TextRead string | TextUnicodeDecodeError | TextRaised string

definition read_text :: "pylib \<Rightarrow> file_view \<Rightarrow> string \<Rightarrow> text_read" where
  "read_text L path enc =
     (case f_read_bytes path of
        Inl e \<Rightarrow> TextRaised e
      | Inr bs \<Rightarrow>
          (case codec_lookup L enc of
             Inl e \<Rightarrow> TextRaised e
           | Inr codec \<Rightarrow>
               (case codec bs of
                  Decoded s \<Rightarrow> TextRead (translate_newlines s)
                | UnicodeDecodeError \<Rightarrow> TextUnicodeDecodeError
                | DecodingRaised e \<Rightarrow> TextRaised e)))"

definition read_local_file ::
  "pylib \<Rightarrow> (string \<Rightarrow> file_view) \<Rightarrow> string \<Rightarrow> bool \<Rightarrow> string \<Rightarrow> file_read envelope"
where
  "read_local_file L fs file_path as_text enc =
     (let path = fs file_path in
      if \<not> f_exists path then Failure (''File not found: '' @ file_path)
      else if \<not> f_is_file path then Failure (''Not a file: '' @ file_path)
      else
        (case f_stat path of
           Inl e \<Rightarrow> Failure e
         | Inr stat \<Rightarrow>
             (let binary =
                (case f_read_bytes path of
                   Inl e \<Rightarrow> Failure e
                 | Inr bs \<Rightarrow>
                     Success \<lparr>content = b64encode bs, encoding = ''base64'',
                              size_bytes = st_size stat, modified = st_mtime stat\<rparr>)
              in
                if as_text then
                  (case read_text L path enc of
                     TextRead s \<Rightarrow>
                       Success \<lparr>content = s, encoding = enc,
                                size_bytes = st_size stat, modified = st_mtime stat\<rparr>
                   | TextUnicodeDecodeError \<Rightarrow> binary
                   | TextRaised e \<Rightarrow> Failure e)
                else binary)))"

text \<open>
  \<^verbatim>\<open>Path.name\<close>: the last component of the path; empty and \<^verbatim>\<open>.\<close> components do not
  count.
\<close>

fun split_path :: "string \<Rightarrow> string \<Rightarrow> string list" where
  "split_path acc [] = [acc]"
| "split_path acc (c # cs) =
     (if c = CHR ''/'' then acc # split_path [] cs else split_path (acc @ [c]) cs)"

definition path_name :: "string \<Rightarrow> string" where
  "path_name s =
     (case rev (filter (\<lambda>part. part \<noteq> [] \<and> part \<noteq> ''.'') (split_path [] s)) of
        [] \<Rightarrow> []
      | part # _ \<Rightarrow> part)"

text \<open>
  \<^verbatim>\<open>str.lower\<close> on the ASCII letters. A character outside ASCII is left as it is; no
  such character lowers to a letter of \<^verbatim>\<open>.csv\<close> or \<^verbatim>\<open>.json\<close>, so the branch taken
  by \<^verbatim>\<open>validate_dataset\<close> does not depend on them.
\<close>

definition ascii_uppercase :: string where
  "ascii_uppercase = ''ABCDEFGHIJKLMNOPQRSTUVWXYZ''"

definition ascii_lowercase :: string where
  "ascii_lowercase = ''abcdefghijklmnopqrstuvwxyz''"

definition lower_char :: "char \<Rightarrow> char" where
  "lower_char c = (case index_of c ascii_uppercase of None \<Rightarrow> c | Some i \<Rightarrow> ascii_lowercase ! i)"

definition lower :: "string \<Rightarrow> string" where
  "lower s = map lower_char s"

datatype validation =
    CsvReport string
  | JsonReport string
  | Unvalidated string nat string
  | NoReport

definition validate_dataset ::
  "pylib \<Rightarrow> (string \<Rightarrow> file_view) \<Rightarrow> string \<Rightarrow> validation envelope"
where
  "validate_dataset L fs file_path =
     (let path = fs file_path in
      if \<not> f_exists path then Failure (''File not found: '' @ file_path)
      else
        (let extension = lower (path_suffix (path_name file_path)) in
         if extension = ''.csv'' then
           (case analyze_csv L file_path of
              Inl e \<Rightarrow> Failure e
            | Inr None \<Rightarrow> Success NoReport
            | Inr (Some r) \<Rightarrow> Success (CsvReport r))
         else if extension = ''.json'' then
           (case analyze_json L file_path of
              Inl e \<Rightarrow> Failure e
            | Inr r \<Rightarrow> Success (JsonReport r))
         else
           (case f_stat path of
              Inl e \<Rightarrow> Failure e
            | Inr stat \<Rightarrow>
                Success (Unvalidated extension (st_size stat)
                           ''File type not specifically validated''))))"

section \<open>\<^verbatim>\<open>read_credentials\<close>\<close>

record cred_fs =
  c_home :: string
  c_exists :: "string \<Rightarrow> bool"
  c_read_text :: "string \<Rightarrow> string + string"

datatype log_level = DEBUG | INFO | ERROR

type_synonym log_record = "log_level \<times> string"

record credentials =
  credentials_text :: string
  cred_source_path :: string
  provider_hint :: "string option"

text \<open>The \<^verbatim>\<open>/\<close> of pathlib on a path and one relative part.\<close>

definition joinpath :: "string \<Rightarrow> string \<Rightarrow> string" where
  "joinpath a b = (if b = [] then a else a @ ''/'' @ b)"

text \<open>
  The pattern \<^verbatim>\<open>rf'({key}[^=]*=\s*)"?([^"\s]+)"?'\<close> and the replacement
  \<^verbatim>\<open>rf'\1"***MASKED***"'\<close>.
\<close>

definition mask_pattern :: "string \<Rightarrow> string" where
  "mask_pattern key =
     ''('' @ key @ ''[^=]*='' @ [CHR 0x5C] @ ''s*)'' @ [CHR 0x22] @ ''?([^'' @ [CHR 0x22, CHR 0x5C] @
     ''s]+)'' @ [CHR 0x22] @ ''?''"

definition mask_replacement :: string where
  "mask_replacement = [CHR 0x5C] @ ''1'' @ [CHR 0x22] @ ''***MASKED***'' @ [CHR 0x22]"

definition mask_content :: "pylib \<Rightarrow> string \<Rightarrow> string" where
  "mask_content L text =
     foldl (\<lambda>masked key. re_sub L (mask_pattern key) mask_replacement masked) text
       [''KEY'', ''SECRET'', ''TOKEN'', ''PASSWORD'']"

definition locate_credentials :: "pylib \<Rightarrow> cred_fs \<Rightarrow> string \<Rightarrow> string option" where
  "locate_credentials L fs creds_path =
     (let path = path_str L creds_path in
      if c_exists fs path then Some path
      else
        find (c_exists fs)
          [joinpath (joinpath (c_home fs) ''.aws'') ''credentials'',
           joinpath (joinpath (c_home fs) ''.aws'') (path_name creds_path),
           joinpath (c_home fs) (path_name creds_path)])"

text \<open>The second component is what the call hands to \<^verbatim>\<open>logger\<close>, in order.\<close>

definition read_credentials ::
  "pylib \<Rightarrow> cred_fs \<Rightarrow> string \<Rightarrow> string option \<Rightarrow> credentials envelope \<times> log_record list"
where
  "read_credentials L fs creds_path provider =
     (case locate_credentials L fs creds_path of
        None \<Rightarrow> (Failure (''Credentials file not found: '' @ creds_path), [])
      | Some path \<Rightarrow>
          (case c_read_text fs path of
             Inl e \<Rightarrow> (Failure e, [(ERROR, ''Failed to read credentials: '' @ e)])
           | Inr text \<Rightarrow>
               (Success
                  \<lparr>credentials_text = text, cred_source_path = path, provider_hint = provider\<rparr>,
                [(INFO, ''Read credentials from: '' @ path),
                 (DEBUG, ''Masked content: '' @ take 200 (mask_content L text) @ ''...'')])))"

section \<open>\<^verbatim>\<open>save_download_locally\<close>\<close>

text \<open>
  The files on disk, and where \<^verbatim>\<open>mkdir\<close> of the parent or \<^verbatim>\<open>write_bytes\<close> raises.
\<close>

record disk =
  d_files :: "string \<rightharpoonup> byte list"
  d_mkdir_error :: "string \<Rightarrow> string option"
  d_write_error :: "string \<Rightarrow> string option"

record saved =
  saved_path :: string
  saved_size :: nat

definition save_download_locally ::
  "pylib \<Rightarrow> disk \<Rightarrow> string \<Rightarrow> string \<Rightarrow> bool \<Rightarrow> saved envelope \<times> disk"
where
  "save_download_locally L d content_b64 target_path create_dirs =
     (let path = path_str L target_path in
      case (if create_dirs then d_mkdir_error d path else None) of
        Some e \<Rightarrow> (Failure e, d)
      | None \<Rightarrow>
          (case b64decode content_b64 of
             Inl e \<Rightarrow> (Failure e, d)
           | Inr bs \<Rightarrow>
               (case d_write_error d path of
                  Some e \<Rightarrow> (Failure e, d)
                | None \<Rightarrow>
                    (Success \<lparr>saved_path = path, saved_size = length bs\<rparr>,
                     d\<lparr>d_files := (d_files d)(path \<mapsto> bs)\<rparr>))))"

section \<open>The unified proxy\<close>

text \<open>
  \<^verbatim>\<open>create_unified_proxy\<close> of \<^verbatim>\<open>proxy_server.py\<close> hands a configuration with the
  servers \<^verbatim>\<open>local\<close> and \<^verbatim>\<open>remote\<close> to \<^verbatim>\<open>FastMCP.as_proxy\<close>; its prompt documents
  the prefixes \<^verbatim>\<open>local_\<close> and \<^verbatim>\<open>remote_\<close>.
\<close>

definition mcp_servers :: "string list" where
  "mcp_servers = [''local'', ''remote'']"

definition tool_prefix :: "string \<Rightarrow> string" where
  "tool_prefix server = server @ ''_''"

datatype router_error = UnknownTool string

text \<open>
  Modelled from the spec: the dispatch of \<^verbatim>\<open>callTool\<close> is done inside the FastMCP
  package (\<^verbatim>\<open>FastMCP.as_proxy\<close>), which is not among the sources. The spec's words:
  ``\<^verbatim>\<open>callTool(name, args)\<close> extracts the longest matching registered prefix from
  \<^verbatim>\<open>name\<close>, strips it, and forwards the remaining name and args to that backend,
  returning its result unmodified; if no prefix matches, fails with \<^verbatim>\<open>UnknownTool\<close>''.
  A backend is the function from a tool name and arguments to its result.
\<close>

fun longest_prefix :: "(string \<times> 'b) list \<Rightarrow> string \<Rightarrow> (string \<times> 'b) option" where
  "longest_prefix [] name = None"
| "longest_prefix ((p, b) # rest) name =
     (case longest_prefix rest name of
        None \<Rightarrow> if take (length p) name = p then Some (p, b) else None
      | Some (q, c) \<Rightarrow>
          if take (length p) name = p \<and> length q \<le> length p then Some (p, b) else Some (q, c))"

definition callTool ::
  "(string \<times> (string \<Rightarrow> 'a \<Rightarrow> 'r)) list \<Rightarrow> string \<Rightarrow> 'a \<Rightarrow> router_error + 'r"
where
  "callTool backends name args =
     (case longest_prefix backends name of
        None \<Rightarrow> Inl (UnknownTool name)
      | Some (p, backend) \<Rightarrow> Inr (backend (drop (length p) name) args))"

text \<open>The router over the configured servers, each with its backend.\<close>

definition unified_proxy ::
  "(string \<Rightarrow> string \<Rightarrow> 'a \<Rightarrow> 'r) \<Rightarrow> (string \<times> (string \<Rightarrow> 'a \<Rightarrow> 'r)) list"
where
  "unified_proxy backend_of = map (\<lambda>server. (tool_prefix server, backend_of server)) mcp_servers"

section \<open>A concrete environment\<close>

text \<open>
  Stand-ins for the library functions, and a small file system, on which the model is
  evaluated. \<open>glob\<close> matches a pattern of literal characters, \<^verbatim>\<open>?\<close> and \<^verbatim>\<open>*\<close>
  against a name; \<open>sample_match\<close> applies it to the last component of the path, as
  \<^verbatim>\<open>PurePath.match\<close> does for a pattern of one component.
\<close>

fun glob :: "string \<Rightarrow> string \<Rightarrow> bool" where
  "glob [] s = (s = [])"
| "glob (p # ps) [] = (p = CHR ''*'' \<and> glob ps [])"
| "glob (p # ps) (c # cs) =
     (if p = CHR ''*'' then glob ps (c # cs) \<or> glob (p # ps) cs
      else (p = CHR ''?'' \<or> p = c) \<and> glob ps cs)"

definition sample_match :: "string \<Rightarrow> string \<Rightarrow> string + bool" where
  "sample_match path pattern =
     (if pattern = [] then Inl ''empty pattern'' else Inr (glob pattern (path_name path)))"

text \<open>
  The \<^verbatim>\<open>ascii\<close> codec: a byte above 127 raises \<^verbatim>\<open>UnicodeDecodeError\<close>. The
  \<^verbatim>\<open>undefined\<close> codec: every decoding raises \<^verbatim>\<open>UnicodeError("undefined encoding")\<close>,
  which is not a \<^verbatim>\<open>UnicodeDecodeError\<close>.
\<close>

definition ascii_codec :: "byte list \<Rightarrow> decoding" where
  "ascii_codec bs =
     (if list_all (\<lambda>b. unat b < 128) bs then Decoded (map (\<lambda>b. char_of (unat b)) bs)
      else UnicodeDecodeError)"

definition undefined_codec :: "byte list \<Rightarrow> decoding" where
  "undefined_codec bs = DecodingRaised ''undefined encoding''"

definition sample_codec_lookup :: "string \<Rightarrow> string + (byte list \<Rightarrow> decoding)" where
  "sample_codec_lookup enc =
     (if enc = ''ascii'' then Inr ascii_codec
      else if enc = ''undefined'' then Inr undefined_codec
      else Inl (''unknown encoding: '' @ enc))"

text \<open>
  A substitution for patterns of the shape of \<open>mask_pattern\<close>, on a text that is one
  assignment \<^verbatim>\<open>NAME=VALUE\<close> without blanks or quotes: where the name contains the key
  (read from the pattern, compared without case) the value is replaced by the mask in
  quotes, as the regular expression does on such a text.
\<close>

definition upper_char :: "char \<Rightarrow> char" where
  "upper_char c = (case index_of c ascii_lowercase of None \<Rightarrow> c | Some i \<Rightarrow> ascii_uppercase ! i)"

fun has_infix :: "string \<Rightarrow> string \<Rightarrow> bool" where
  "has_infix k [] = (k = [])"
| "has_infix k (c # cs) = (take (length k) (c # cs) = k \<or> has_infix k cs)"

definition mask_assignment :: "string \<Rightarrow> string \<Rightarrow> string" where
  "mask_assignment key text =
     (if length (dropWhile (\<lambda>c. c \<noteq> CHR ''='') text) > 1 \<and>
         has_infix (map upper_char key) (map upper_char (takeWhile (\<lambda>c. c \<noteq> CHR ''='') text))
      then takeWhile (\<lambda>c. c \<noteq> CHR ''='') text @ ''='' @ [CHR 0x22] @ ''***MASKED***'' @ [CHR 0x22]
      else text)"

definition sample_re_sub :: "string \<Rightarrow> string \<Rightarrow> string \<Rightarrow> string" where
  "sample_re_sub pat repl text =
     mask_assignment (takeWhile (\<lambda>c. c \<noteq> CHR ''['') (tl pat)) text"

definition sample_lib :: pylib where
  "sample_lib =
     \<lparr>py_hash = (\<lambda>s. int (length s)),
      path_str = (\<lambda>s. s),
      path_match = sample_match,
      fmt_mb = (\<lambda>n. str_nat (n div 1048576) @ ''.'' @ str_nat (n mod 1048576 * 10 div 1048576)),
      round_mb = (\<lambda>n. str_nat (n div 1048576)),
      codec_lookup = sample_codec_lookup,
      re_sub = sample_re_sub,
      analyze_csv = (\<lambda>p. Inr (Some ''csv'')),
      analyze_json = (\<lambda>p. Inr ''json'')\<rparr>"

text \<open>
  The folder \<^verbatim>\<open>data\<close> holds \<^verbatim>\<open>train.csv\<close> and \<^verbatim>\<open>run.log\<close>; the folder \<^verbatim>\<open>logs\<close>
  holds eleven empty \<^verbatim>\<open>.log\<close> files.
\<close>

definition log_entry :: "string \<Rightarrow> fs_entry" where
  "log_entry n =
     \<lparr>e_path = ''logs/'' @ n @ ''.log'', e_rel = n @ ''.log'', e_is_file = True,
      e_size = Inr 0, e_bytes = Inr []\<rparr>"

definition train_csv :: fs_entry where
  "train_csv =
     \<lparr>e_path = ''data/train.csv'', e_rel = ''train.csv'', e_is_file = True,
      e_size = Inr 4, e_bytes = Inr [0x61, 0x2C, 0x62, 0x0A]\<rparr>"

definition run_log :: fs_entry where
  "run_log =
     \<lparr>e_path = ''data/run.log'', e_rel = ''run.log'', e_is_file = True,
      e_size = Inr 2, e_bytes = Inr [0x6F, 0x6B]\<rparr>"

definition sample_folder :: "string \<Rightarrow> string list folder_view" where
  "sample_folder p =
     (if p = ''data'' then
        \<lparr>fv_exists = True, fv_is_dir = True, fv_analysis = Inr [''train.csv'', ''run.log''],
         fv_rglob = [train_csv, run_log]\<rparr>
      else if p = ''logs'' then
        \<lparr>fv_exists = True, fv_is_dir = True, fv_analysis = Inr [],
         fv_rglob =
           [log_entry ''a'', log_entry ''b'', log_entry ''c'', log_entry ''d'', log_entry ''e'',
            log_entry ''f'', log_entry ''g'', log_entry ''h'', log_entry ''i'', log_entry ''j'',
            log_entry ''k'']\<rparr>
      else
        \<lparr>fv_exists = False, fv_is_dir = False,
         fv_analysis = Inl ''No such file or directory'', fv_rglob = []\<rparr>)"

text \<open>
  A home directory with \<^verbatim>\<open>.aws/credentials\<close> and nothing else, and a file system with
  the two files \<^verbatim>\<open>blob.bin\<close> (two bytes above 127) and \<^verbatim>\<open>docs/notes.TXT\<close>.
\<close>

definition sample_creds :: cred_fs where
  "sample_creds =
     \<lparr>c_home = ''/home/u'',
      c_exists = (\<lambda>p. p = ''/home/u/.aws/credentials''),
      c_read_text = (\<lambda>p. if p = ''/home/u/.aws/credentials'' then Inr ''API_KEY=abc123''
                          else Inl ''No such file or directory'')\<rparr>"

definition sample_files :: "string \<Rightarrow> file_view" where
  "sample_files p =
     (if p = ''blob.bin'' then
        \<lparr>f_exists = True, f_is_file = True,
         f_stat = Inr \<lparr>st_size = 2, st_mtime = 1700000000\<rparr>,
         f_read_bytes = Inr [0xFF, 0xFE]\<rparr>
      else if p = ''docs/notes.TXT'' then
        \<lparr>f_exists = True, f_is_file = True,
         f_stat = Inr \<lparr>st_size = 3, st_mtime = 1700000002\<rparr>,
         f_read_bytes = Inr [0x61, 0x62, 0x63]\<rparr>
      else
        \<lparr>f_exists = False, f_is_file = False,
         f_stat = Inl ''No such file or directory'',
         f_read_bytes = Inl ''No such file or directory''\<rparr>)"

text \<open>An empty disk on which every write succeeds.\<close>

definition sample_disk :: disk where
  "sample_disk =
     \<lparr>d_files = Map.empty, d_mkdir_error = (\<lambda>p. None), d_write_error = (\<lambda>p. None)\<rparr>"

text \<open>Points in time in January 2025.\<close>

definition at_time :: "nat \<Rightarrow> nat \<Rightarrow> nat \<Rightarrow> nat \<Rightarrow> nat \<Rightarrow> datetime" where
  "at_time d h m s us =
     \<lparr>year = 2025, month = 1, day = d, hour = h, minute = m, second = s, microsecond = us\<rparr>"

text \<open>The cache entry that preparing \<^verbatim>\<open>data\<close> with the pattern \<^verbatim>\<open>*.log\<close> stores.\<close>

definition sample_entry :: "datetime \<Rightarrow> string list cache_entry" where
  "sample_entry ts =
     \<lparr>folder_structure = [''train.csv'', ''run.log''],
      file_contents = [(''train.csv'', ''YSxiCg=='')], timestamp = ts, source_path = ''data''\<rparr>"

text \<open>
  A directory \<^verbatim>\<open>project\<close> holding the directory \<^verbatim>\<open>sub\<close> (with one file) and the file
  \<^verbatim>\<open>a.txt\<close>, listed by the operating system in this order.
\<close>

definition sample_tree :: fs_tree where
  "sample_tree =
     Directory ''project''
       [Directory ''sub'' [RegularFile ''b.txt'' 7 1700000000], RegularFile ''a.txt'' 5 1700000001]"

definition sample_tree_fs :: "string \<Rightarrow> fs_tree option" where
  "sample_tree_fs p = (if p = ''project'' then Some sample_tree else None)"

text \<open>Backends that answer with their own name and the tool name they were handed.\<close>

definition sample_backend :: "string \<Rightarrow> string \<Rightarrow> unit \<Rightarrow> string" where
  "sample_backend server tool args = server @ '' ran '' @ tool"

section \<open>Properties\<close>

lemma td_seconds_dt_sub: "td_seconds (dt_sub a b) = elapsed_us a b div 1000000 mod 86400"
  by (simp add: dt_sub_def mk_timedelta_def elapsed_us_def Let_def)

subsection \<open>Decimal strings and time stamps\<close>

lemma digit_inj: "a < 10 \<Longrightarrow> b < 10 \<Longrightarrow> digit a = digit b \<Longrightarrow> a = b"
proof -
  assume a: "a < 10" and b: "b < 10" and e: "digit a = digit b"
  have "a \<in> {0,1,2,3,4,5,6,7,8,9}" using a by auto
  moreover have "b \<in> {0,1,2,3,4,5,6,7,8,9}" using b by auto
  ultimately show ?thesis using e by (auto simp: digit_def)
qed

lemma digit_not_minus: "d < 10 \<Longrightarrow> digit d \<noteq> CHR ''-''"
proof -
  assume a: "d < 10"
  have "d \<in> {0,1,2,3,4,5,6,7,8,9}" using a by auto
  then show ?thesis by (auto simp: digit_def)
qed

lemma str_nat_nonempty: "str_nat n \<noteq> []"
  by (subst str_nat.simps) simp

lemma str_nat_last: "last (str_nat n) = digit (n mod 10)"
  by (subst str_nat.simps) simp

lemma str_nat_butlast: "butlast (str_nat n) = (if n < 10 then [] else str_nat (n div 10))"
  by (subst str_nat.simps) simp

lemma str_nat_inj: "str_nat m = str_nat n \<Longrightarrow> m = n"
proof (induction m arbitrary: n rule: str_nat.induct)
  case (1 m)
  have l: "digit (m mod 10) = digit (n mod 10)"
    using "1.prems" str_nat_last[of m] str_nat_last[of n] by simp
  then have lm: "m mod 10 = n mod 10" by (intro digit_inj) auto
  have b: "butlast (str_nat m) = butlast (str_nat n)" using "1.prems" by simp
  show ?case
  proof (cases "m < 10")
    case True
    then have "n < 10" using b str_nat_butlast[of m] str_nat_butlast[of n] str_nat_nonempty[of "n div 10"]
      by (auto split: if_splits)
    with True lm show ?thesis by simp
  next
    case False
    then have n: "\<not> n < 10" using b str_nat_butlast[of m] str_nat_butlast[of n] str_nat_nonempty[of "m div 10"]
      by (auto split: if_splits)
    then have "str_nat (m div 10) = str_nat (n div 10)"
      using False b str_nat_butlast[of m] str_nat_butlast[of n] by simp
    then have "m div 10 = n div 10" using "1.IH" False by simp
    with lm show ?thesis by (metis div_mult_mod_eq)
  qed
qed

lemma str_nat_hd_not_minus: "hd (str_nat n) \<noteq> CHR ''-''"
proof (induction n rule: str_nat.induct)
  case (1 n)
  show ?case
  proof (cases "n < 10")
    case True
    then show ?thesis by (subst str_nat.simps) (simp add: digit_not_minus)
  next
    case False
    then have "hd (str_nat n) = hd (str_nat (n div 10))"
      by (subst str_nat.simps) (simp add: str_nat_nonempty)
    then show ?thesis using 1 False by simp
  qed
qed

lemma str_nat_not_minus: "str_nat n \<noteq> CHR ''-'' # s"
proof
  assume "str_nat n = CHR ''-'' # s"
  then have "hd (str_nat n) = CHR ''-''" by simp
  then show False using str_nat_hd_not_minus by blast
qed

lemma str_int_inj: "str_int i = str_int j \<Longrightarrow> i = j"
proof -
  assume e: "str_int i = str_int j"
  show ?thesis
  proof (cases "i < 0")
    case True
    have j: "j < 0"
    proof (rule ccontr)
      assume "\<not> j < 0"
      then have "str_nat (nat j) = CHR ''-'' # str_nat (nat (- i))"
        using e True by (simp add: str_int_def)
      then show False using str_nat_not_minus by blast
    qed
    then have "str_nat (nat (- i)) = str_nat (nat (- j))" using e True by (simp add: str_int_def)
    then have "nat (-i) = nat (-j)" by (rule str_nat_inj)
    then show ?thesis using True j by simp
  next
    case False
    have j: "\<not> j < 0"
    proof
      assume "j < 0"
      then have "str_nat (nat i) = CHR ''-'' # str_nat (nat (- j))"
        using e False by (simp add: str_int_def)
      then show False using str_nat_not_minus by blast
    qed
    then have "str_nat (nat i) = str_nat (nat j)" using e False by (simp add: str_int_def)
    then have "nat i = nat j" by (rule str_nat_inj)
    then show ?thesis using False j by simp
  qed
qed

lemma div10_eq: "x mod 10 = y mod 10 \<Longrightarrow> x div 10 = y div 10 \<Longrightarrow> x = (y::nat)"
  by (metis div_mult_mod_eq)

lemma dig2_inj: "a < 100 \<Longrightarrow> b < 100 \<Longrightarrow> dig2 a = dig2 b \<Longrightarrow> a = b"
proof -
  assume a: "a < 100" and b: "b < 100" and e: "dig2 a = dig2 b"
  have "a div 10 mod 10 = b div 10 mod 10" using e by (auto simp: dig2_def intro!: digit_inj)
  moreover have "a div 10 < 10" "b div 10 < 10" using a b by simp_all
  ultimately have h: "a div 10 = b div 10" by simp
  have "a mod 10 = b mod 10" using e by (auto simp: dig2_def intro!: digit_inj)
  then show ?thesis using h by (rule div10_eq)
qed

lemma dig4_inj: "a < 10000 \<Longrightarrow> b < 10000 \<Longrightarrow> dig4 a = dig4 b \<Longrightarrow> a = b"
proof -
  assume a: "a < 10000" and b: "b < 10000" and e: "dig4 a = dig4 b"
  have "a div 1000 mod 10 = b div 1000 mod 10" using e by (auto simp: dig4_def intro!: digit_inj)
  moreover have "a div 1000 < 10" "b div 1000 < 10" using a b by simp_all
  ultimately have h3: "a div 1000 = b div 1000" by simp
  have m2: "a div 100 mod 10 = b div 100 mod 10" using e by (auto simp: dig4_def intro!: digit_inj)
  have "a div 100 div 10 = b div 100 div 10" using h3 by (simp add: div_mult2_eq[symmetric])
  with m2 have h2: "a div 100 = b div 100" by (rule div10_eq)
  have m1: "a div 10 mod 10 = b div 10 mod 10" using e by (auto simp: dig4_def intro!: digit_inj)
  have "a div 10 div 10 = b div 10 div 10" using h2 by (simp add: div_mult2_eq[symmetric])
  with m1 have h1: "a div 10 = b div 10" by (rule div10_eq)
  have "a mod 10 = b mod 10" using e by (auto simp: dig4_def intro!: digit_inj)
  then show ?thesis using h1 by (rule div10_eq)
qed

lemma length_strftime_stamp: "length (strftime_stamp d) = 15"
  by (simp add: strftime_stamp_def dig2_def dig4_def)

lemma make_cache_id_eq_iff:
  "make_cache_id L a p = make_cache_id L b q \<longleftrightarrow>
     strftime_stamp a = strftime_stamp b \<and> py_hash L p = py_hash L q"
  using length_strftime_stamp[of a] length_strftime_stamp[of b]
  by (auto simp: make_cache_id_def dest: str_int_inj)

lemma strftime_stamp_eq_iff:
  assumes "valid_datetime a" "valid_datetime b"
  shows "strftime_stamp a = strftime_stamp b \<longleftrightarrow>
     year a = year b \<and> month a = month b \<and> day a = day b \<and>
     hour a = hour b \<and> minute a = minute b \<and> second a = second b"
proof
  assume e: "strftime_stamp a = strftime_stamp b"
  have l2: "\<And>x. length (dig2 x) = 2" and l4: "\<And>x. length (dig4 x) = 4"
    by (simp_all add: dig2_def dig4_def)
  from e have y: "dig4 (year a) = dig4 (year b)" and mo: "dig2 (month a) = dig2 (month b)"
    and d: "dig2 (day a) = dig2 (day b)" and h: "dig2 (hour a) = dig2 (hour b)"
    and mi: "dig2 (minute a) = dig2 (minute b)" and se: "dig2 (second a) = dig2 (second b)"
    by (simp_all add: strftime_stamp_def l2 l4)
  have dl: "day a < 100" "day b < 100"
    using assms by (auto simp: valid_datetime_def days_in_month_def split: if_splits)
  have "year a = year b" using assms y by (intro dig4_inj) (auto simp: valid_datetime_def)
  moreover have "month a = month b" using assms mo by (intro dig2_inj) (auto simp: valid_datetime_def)
  moreover have "day a = day b" using dl d by (intro dig2_inj)
  moreover have "hour a = hour b" using assms h by (intro dig2_inj) (auto simp: valid_datetime_def)
  moreover have "minute a = minute b" using assms mi by (intro dig2_inj) (auto simp: valid_datetime_def)
  moreover have "second a = second b" using assms se by (intro dig2_inj) (auto simp: valid_datetime_def)
  ultimately show "year a = year b \<and> month a = month b \<and> day a = day b \<and>
     hour a = hour b \<and> minute a = minute b \<and> second a = second b"
    by simp
next
  assume "year a = year b \<and> month a = month b \<and> day a = day b \<and>
     hour a = hour b \<and> minute a = minute b \<and> second a = second b"
  then show "strftime_stamp a = strftime_stamp b" by (simp add: strftime_stamp_def)
qed

subsection \<open>The cache\<close>

lemma age_within_a_day:
  assumes "0 \<le> elapsed_us a b" and "elapsed_us a b < 86400 * 1000000"
  shows "td_seconds (dt_sub a b) = elapsed_us a b div 1000000"
proof -
  let ?d = "elapsed_us a b"
  have "0 \<le> ?d div 1000000" using assms(1) by simp
  moreover have "?d div 1000000 < 86400" using assms(2) by simp
  ultimately show ?thesis by (simp add: td_seconds_dt_sub)
qed

lemma prepare_success:
  assumes "prepare_local_folder L fs now_id now_ts dc folder mx sp = (Success r, dc')"
  shows "\<exists>structure st. fv_analysis (fs folder) = Inr structure \<and>
     scan_files L mx sp (fv_rglob (fs folder)) \<lparr>st_contents = [], st_total = 0, st_skipped = []\<rparr> = Inr st \<and>
     r = \<lparr>cache_id = make_cache_id L now_id folder,
          summary = \<lparr>total_files = length (st_contents st), total_size = st_total st,
                  total_size_mb = round_mb L (st_total st), skipped_files = length (st_skipped st),
                  skipped_details = take 10 (st_skipped st)\<rparr>\<rparr> \<and>
     dc' = dc(make_cache_id L now_id folder \<mapsto> \<lparr>folder_structure = structure, file_contents = st_contents st,
                       timestamp = now_ts, source_path = folder\<rparr>)"
  using assms
  by (auto simp: prepare_local_folder_def Let_def split: if_splits sum.splits)

lemma get_cached_data_by_age:
  assumes "dc cid = Some e" and "0 \<le> elapsed_us now (timestamp e)"
    and "elapsed_us now (timestamp e) < 86400 * 1000000"
  shows "get_cached_data now dc cid =
     (if elapsed_us now (timestamp e) div 1000000 > cache_timeout
      then (Failure (''Cache expired (age: '' @ str_int (elapsed_us now (timestamp e) div 1000000) @ ''s)''),
            dc(cid := None))
      else (Success \<lparr>got_folder_structure = folder_structure e, got_file_contents = file_contents e\<rparr>, dc))"
  using assms(1) age_within_a_day[OF assms(2,3)]
  by (simp add: get_cached_data_def Let_def)

lemma elapsed_us_at_time:
  "elapsed_us (at_time d h m s u) (at_time d' h' m' s' u') =
     ((int d - int d') * 86400 + (int s + int m * 60 + int h * 3600 - (int s' + int m' * 60 + int h' * 3600))) * 1000000
      + (int u - int u')"
  by (simp add: elapsed_us_def at_time_def toordinal_def day_seconds_def)

lemma sample_scan_data:
  "scan_files sample_lib (Some 104857600) (Some [''*.log'']) (fv_rglob (sample_folder ''data''))
      \<lparr>st_contents = [], st_total = 0, st_skipped = []\<rparr> =
   Inr \<lparr>st_contents = [(''train.csv'', ''YSxiCg=='')], st_total = 4, st_skipped = [''data/run.log'']\<rparr>"
  by (simp add: sample_folder_def train_csv_def run_log_def sample_lib_def sample_match_def
      skip_check_def path_name_def table_b2a_base64_def b64_alphabet_def)

lemma sample_cache_id:
  "make_cache_id sample_lib (at_time 2 10 0 0 us) ''data'' = ''folder_20250102_100000_4''"
  by (simp add: make_cache_id_def sample_lib_def at_time_def strftime_stamp_def dig2_def dig4_def
      digit_def str_int_def str_nat.simps)

lemma sample_folder_data:
  "fv_exists (sample_folder ''data'')" "fv_is_dir (sample_folder ''data'')"
  "fv_analysis (sample_folder ''data'') = Inr [''train.csv'', ''run.log'']"
  by (simp_all add: sample_folder_def)

lemma sample_rglob_data: "fv_rglob (sample_folder ''data'') = [train_csv, run_log]"
  by (simp add: sample_folder_def)

lemma sample_prepare_data:
  "prepare_local_folder sample_lib sample_folder (at_time 2 10 0 0 us) ts dc ''data''
      (Some 104857600) (Some [''*.log'']) =
   (Success \<lparr>cache_id = ''folder_20250102_100000_4'',
             summary = \<lparr>total_files = 1, total_size = 4, total_size_mb = ''0'',
                        skipped_files = 1, skipped_details = [''data/run.log'']\<rparr>\<rparr>,
    dc(''folder_20250102_100000_4'' \<mapsto> sample_entry ts))"
proof -
  have "round_mb sample_lib 4 = ''0''"
    by (simp add: sample_lib_def str_nat.simps digit_def)
  then show ?thesis
    by (simp add: prepare_local_folder_def Let_def sample_folder_data sample_scan_data
        sample_cache_id sample_entry_def)
qed

text \<open>
  Claim C1, as amended. \<^verbatim>\<open>prepare_local_folder\<close> has inserted an entry with time stamp
  \<open>T\<close> (its second reading of the clock), and \<^verbatim>\<open>get_cached_data\<close> is called on its
  cache id at a time \<open>T'\<close> with \<open>0 \<le> T' - T\<close> less than one day. Then the call returns
  the stored \<open>folder_structure\<close> and \<open>file_contents\<close> unchanged, and leaves the cache as it
  is, whenever \<open>T' - T\<close> is less than TTL + 1 seconds (TTL = 3600), and it reports the entry
  as expired, with the age in whole seconds, whenever \<open>T' - T\<close> is at least TTL + 1 seconds.
  The code tests \<open>age > cache_timeout\<close> on whole seconds, so an entry of age exactly TTL is
  still served.
\<close>

theorem get_cached_data_after_prepare:
  assumes prep: "prepare_local_folder L fs now_id now_ts dc folder mx sp = (Success r, dc')"
    and ent: "dc' (cache_id r) = Some e"
    and lo: "0 \<le> elapsed_us now now_ts" and hi: "elapsed_us now now_ts < 86400 * 1000000"
  shows "timestamp e = now_ts \<and>
         (elapsed_us now now_ts < (cache_timeout + 1) * 1000000 \<longrightarrow>
            get_cached_data now dc' (cache_id r) =
              (Success \<lparr>got_folder_structure = folder_structure e,
                        got_file_contents = file_contents e\<rparr>, dc')) \<and>
         ((cache_timeout + 1) * 1000000 \<le> elapsed_us now now_ts \<longrightarrow>
            get_cached_data now dc' (cache_id r) =
              (Failure (''Cache expired (age: '' @ str_int (elapsed_us now now_ts div 1000000) @ ''s)''),
               dc'(cache_id r := None)))"
proof -
  from prepare_success[OF prep] ent have ts: "timestamp e = now_ts" by auto
  have "get_cached_data now dc' (cache_id r) =
     (if elapsed_us now now_ts div 1000000 > cache_timeout
      then (Failure (''Cache expired (age: '' @ str_int (elapsed_us now now_ts div 1000000) @ ''s)''),
            dc'(cache_id r := None))
      else (Success \<lparr>got_folder_structure = folder_structure e, got_file_contents = file_contents e\<rparr>, dc'))"
    using get_cached_data_by_age[of dc' "cache_id r" e now] ent lo hi ts by simp
  then show ?thesis using ts by (auto simp: cache_timeout_def)
qed

theorem get_cached_data_after_prepare_witness:
  "fst (get_cached_data (at_time 2 10 59 59 999999)
          (snd (prepare_local_folder sample_lib sample_folder (at_time 2 10 0 0 0) (at_time 2 10 0 0 0)
                  Map.empty ''data'' (Some 104857600) (Some [''*.log''])))
          ''folder_20250102_100000_4'') =
     Success \<lparr>got_folder_structure = [''train.csv'', ''run.log''],
              got_file_contents = [(''train.csv'', ''YSxiCg=='')]\<rparr> \<and>
   fst (get_cached_data (at_time 2 11 0 1 0)
          (snd (prepare_local_folder sample_lib sample_folder (at_time 2 10 0 0 0) (at_time 2 10 0 0 0)
                  Map.empty ''data'' (Some 104857600) (Some [''*.log''])))
          ''folder_20250102_100000_4'') =
     Failure ''Cache expired (age: 3601s)''"
proof -
  let ?dc = "Map.empty(''folder_20250102_100000_4'' \<mapsto> sample_entry (at_time 2 10 0 0 0))"
  let ?r = "\<lparr>cache_id = ''folder_20250102_100000_4'',
             summary = \<lparr>total_files = 1, total_size = 4, total_size_mb = ''0'',
                        skipped_files = 1, skipped_details = [''data/run.log'']\<rparr>\<rparr>"
  have p: "prepare_local_folder sample_lib sample_folder (at_time 2 10 0 0 0) (at_time 2 10 0 0 0)
             Map.empty ''data'' (Some 104857600) (Some [''*.log'']) = (Success ?r, ?dc)"
    by (rule sample_prepare_data)
  have ent: "?dc (cache_id ?r) = Some (sample_entry (at_time 2 10 0 0 0))" by simp
  have s: "str_int 3601 = ''3601''" by (simp add: str_int_def str_nat.simps digit_def)
  have a: "0 \<le> elapsed_us (at_time 2 10 59 59 999999) (at_time 2 10 0 0 0)"
    "elapsed_us (at_time 2 10 59 59 999999) (at_time 2 10 0 0 0) < 86400 * 1000000"
    "0 \<le> elapsed_us (at_time 2 11 0 1 0) (at_time 2 10 0 0 0)"
    "elapsed_us (at_time 2 11 0 1 0) (at_time 2 10 0 0 0) < 86400 * 1000000"
    by (simp_all add: elapsed_us_at_time)
  have b: "elapsed_us (at_time 2 10 59 59 999999) (at_time 2 10 0 0 0) < (cache_timeout + 1) * 1000000"
    "(cache_timeout + 1) * 1000000 \<le> elapsed_us (at_time 2 11 0 1 0) (at_time 2 10 0 0 0)"
    by (simp_all add: elapsed_us_at_time cache_timeout_def)
  from get_cached_data_after_prepare[OF p ent a(1,2)] b(1)
  have "fst (get_cached_data (at_time 2 10 59 59 999999) ?dc (cache_id ?r)) =
          Success \<lparr>got_folder_structure = folder_structure (sample_entry (at_time 2 10 0 0 0)),
                   got_file_contents = file_contents (sample_entry (at_time 2 10 0 0 0))\<rparr>"
    by (simp only: fst_conv)
  moreover from get_cached_data_after_prepare[OF p ent a(3,4)] b(2)
  have "fst (get_cached_data (at_time 2 11 0 1 0) ?dc (cache_id ?r)) =
          Failure (''Cache expired (age: '' @
            str_int (elapsed_us (at_time 2 11 0 1 0) (at_time 2 10 0 0 0) div 1000000) @ ''s)'')"
    by (simp only: fst_conv)
  ultimately show ?thesis
    unfolding p snd_conv
    by (simp add: elapsed_us_at_time s sample_entry_def)
qed

text \<open>
  Claim C1 as stated fails at \<open>T' - T = TTL\<close>: an entry stored at 10:00:00 and read at
  11:00:00 is returned, not reported as expired.
\<close>

theorem get_cached_data_at_ttl_counterexample:
  "cache_timeout * 1000000 \<le> elapsed_us (at_time 2 11 0 0 0) (at_time 2 10 0 0 0) \<and>
   fst (get_cached_data (at_time 2 11 0 0 0)
          (snd (prepare_local_folder sample_lib sample_folder (at_time 2 10 0 0 0) (at_time 2 10 0 0 0)
                  Map.empty ''data'' (Some 104857600) (Some [''*.log''])))
          ''folder_20250102_100000_4'') =
     Success \<lparr>got_folder_structure = [''train.csv'', ''run.log''],
              got_file_contents = [(''train.csv'', ''YSxiCg=='')]\<rparr>"
proof -
  let ?dc = "Map.empty(''folder_20250102_100000_4'' \<mapsto> sample_entry (at_time 2 10 0 0 0))"
  have ent: "?dc ''folder_20250102_100000_4'' = Some (sample_entry (at_time 2 10 0 0 0))" by simp
  have ts: "timestamp (sample_entry (at_time 2 10 0 0 0)) = at_time 2 10 0 0 0"
    by (simp add: sample_entry_def)
  have "get_cached_data (at_time 2 11 0 0 0) ?dc ''folder_20250102_100000_4'' =
     (Success \<lparr>got_folder_structure = [''train.csv'', ''run.log''],
              got_file_contents = [(''train.csv'', ''YSxiCg=='')]\<rparr>, ?dc)"
    using get_cached_data_by_age[of ?dc "''folder_20250102_100000_4''" "sample_entry (at_time 2 10 0 0 0)"
            "at_time 2 11 0 0 0"]
    by (simp add: ts elapsed_us_at_time cache_timeout_def) (simp add: sample_entry_def)
  then show ?thesis
    by (simp add: sample_prepare_data elapsed_us_at_time cache_timeout_def)
qed

text \<open>
  Claim C5 at an entry that is exactly one day old: its age exceeds the TTL, but
  \<^verbatim>\<open>timedelta.seconds\<close> is only the seconds within the day, here 0, so the entry is
  returned and stays in the cache.
\<close>

theorem get_cached_data_day_old_entry:
  "elapsed_us (at_time 3 10 0 0 0) (at_time 2 10 0 0 0) = 86400 * 1000000 \<and>
   get_cached_data (at_time 3 10 0 0 0)
     (Map.empty(''folder_20250102_100000_4'' \<mapsto> sample_entry (at_time 2 10 0 0 0)))
     ''folder_20250102_100000_4'' =
     (Success \<lparr>got_folder_structure = [''train.csv'', ''run.log''],
               got_file_contents = [(''train.csv'', ''YSxiCg=='')]\<rparr>,
      Map.empty(''folder_20250102_100000_4'' \<mapsto> sample_entry (at_time 2 10 0 0 0)))"
  by (simp add: get_cached_data_def td_seconds_dt_sub elapsed_us_at_time sample_entry_def cache_timeout_def)

subsection \<open>Cache ids\<close>

lemma prepare_cache_id:
  assumes "prepare_local_folder L fs now_id now_ts dc folder mx sp = (Success r, dc')"
  shows "cache_id r = make_cache_id L now_id folder"
  using prepare_success[OF assms] by auto

text \<open>
  Claim C8, as amended. The cache id is \<^verbatim>\<open>folder_\<close>, the invocation time to the second
  (\<^verbatim>\<open>%Y%m%d_%H%M%S\<close>), and the hash of the source path. Two successful invocations
  produce distinct cache ids exactly when their invocation times differ in one of the
  fields year to second, or the hashes of their source paths differ. Two invocations
  within the same second on the same path (or on paths of equal hash) share their id.
\<close>

theorem cache_id_distinct_iff:
  assumes "prepare_local_folder L fs1 a a' dc1 p mx1 sp1 = (Success r1, dc1')"
    and "prepare_local_folder L fs2 b b' dc2 q mx2 sp2 = (Success r2, dc2')"
    and "valid_datetime a" and "valid_datetime b"
  shows "cache_id r1 \<noteq> cache_id r2 \<longleftrightarrow>
     year a \<noteq> year b \<or> month a \<noteq> month b \<or> day a \<noteq> day b \<or>
     hour a \<noteq> hour b \<or> minute a \<noteq> minute b \<or> second a \<noteq> second b \<or>
     py_hash L p \<noteq> py_hash L q"
  using prepare_cache_id[OF assms(1)] prepare_cache_id[OF assms(2)]
    strftime_stamp_eq_iff[OF assms(3,4)] make_cache_id_eq_iff[of L a p b q]
  by auto

lemma valid_at_time: "1 \<le> d \<Longrightarrow> d \<le> 31 \<Longrightarrow> h < 24 \<Longrightarrow> m < 60 \<Longrightarrow> s < 60 \<Longrightarrow> us < 1000000 \<Longrightarrow> valid_datetime (at_time d h m s us)"
  by (simp add: valid_datetime_def at_time_def days_in_month_def)

lemma sample_cache_id_next:
  "make_cache_id sample_lib (at_time 2 10 0 2 0) ''data'' = ''folder_20250102_100002_4''"
  by (simp add: make_cache_id_def sample_lib_def at_time_def strftime_stamp_def dig2_def dig4_def
      digit_def str_int_def str_nat.simps)

lemma sample_prepare_data_next:
  "prepare_local_folder sample_lib sample_folder (at_time 2 10 0 2 0) ts dc ''data''
      (Some 104857600) (Some [''*.log'']) =
   (Success \<lparr>cache_id = ''folder_20250102_100002_4'',
             summary = \<lparr>total_files = 1, total_size = 4, total_size_mb = ''0'',
                        skipped_files = 1, skipped_details = [''data/run.log'']\<rparr>\<rparr>,
    dc(''folder_20250102_100002_4'' \<mapsto> sample_entry ts))"
proof -
  have "round_mb sample_lib 4 = ''0''"
    by (simp add: sample_lib_def str_nat.simps digit_def)
  then show ?thesis
    by (simp add: prepare_local_folder_def Let_def sample_folder_data sample_scan_data
        sample_cache_id_next sample_entry_def)
qed

theorem cache_id_distinct_iff_witness:
  "valid_datetime (at_time 2 10 0 0 0) \<and> valid_datetime (at_time 2 10 0 2 0) \<and>
   second (at_time 2 10 0 0 0) \<noteq> second (at_time 2 10 0 2 0) \<and>
   ''folder_20250102_100000_4'' \<noteq> ''folder_20250102_100002_4''"
proof -
  have v: "valid_datetime (at_time 2 10 0 0 0)" "valid_datetime (at_time 2 10 0 2 0)"
    by (simp_all add: valid_at_time)
  have s: "second (at_time 2 10 0 0 0) \<noteq> second (at_time 2 10 0 2 0)"
    by (simp add: at_time_def)
  from cache_id_distinct_iff[OF sample_prepare_data[of 0 "at_time 2 10 0 0 0" Map.empty]
             sample_prepare_data_next[of "at_time 2 10 0 2 0" Map.empty] v] s
  have "cache_id \<lparr>cache_id = ''folder_20250102_100000_4'',
             summary = \<lparr>total_files = 1, total_size = 4, total_size_mb = ''0'',
                        skipped_files = 1, skipped_details = [''data/run.log'']\<rparr>\<rparr> \<noteq>
        cache_id \<lparr>cache_id = ''folder_20250102_100002_4'',
             summary = \<lparr>total_files = 1, total_size = 4, total_size_mb = ''0'',
                        skipped_files = 1, skipped_details = [''data/run.log'']\<rparr>\<rparr>"
    by blast
  then show ?thesis using v s by simp
qed

text \<open>
  Claim C8 as stated fails for two invocations on the same path half a second apart:
  the invocation times differ, the cache ids do not.
\<close>

theorem cache_id_same_second_counterexample:
  "at_time 2 10 0 0 0 \<noteq> at_time 2 10 0 0 500000 \<and>
   fst (prepare_local_folder sample_lib sample_folder (at_time 2 10 0 0 0) (at_time 2 10 0 0 0)
          Map.empty ''data'' (Some 104857600) (Some [''*.log''])) =
     Success \<lparr>cache_id = ''folder_20250102_100000_4'',
             summary = \<lparr>total_files = 1, total_size = 4, total_size_mb = ''0'',
                        skipped_files = 1, skipped_details = [''data/run.log'']\<rparr>\<rparr> \<and>
   fst (prepare_local_folder sample_lib sample_folder (at_time 2 10 0 0 500000) (at_time 2 10 0 0 500000)
          Map.empty ''data'' (Some 104857600) (Some [''*.log''])) =
     Success \<lparr>cache_id = ''folder_20250102_100000_4'',
             summary = \<lparr>total_files = 1, total_size = 4, total_size_mb = ''0'',
                        skipped_files = 1, skipped_details = [''data/run.log'']\<rparr>\<rparr>"
proof -
  have "at_time 2 10 0 0 0 \<noteq> at_time 2 10 0 0 500000" by (simp add: at_time_def)
  then show ?thesis by (simp only: sample_prepare_data fst_conv simp_thms)
qed

subsection \<open>Base64\<close>

lemma index_of_nth: "distinct xs \<Longrightarrow> n < length xs \<Longrightarrow> index_of (xs ! n) xs = Some n"
proof (induction xs arbitrary: n)
  case Nil
  then show ?case by simp
next
  case (Cons x xs)
  show ?case
  proof (cases n)
    case 0
    then show ?thesis by simp
  next
    case (Suc k)
    then have "xs ! k \<in> set xs" using Cons.prems by simp
    then have "xs ! k \<noteq> x" using Cons.prems by auto
    then show ?thesis using Suc Cons by simp
  qed
qed

lemma distinct_b64_alphabet: "distinct b64_alphabet"
  by (simp add: b64_alphabet_def)

lemma length_b64_alphabet: "length b64_alphabet = 64"
  by (simp add: b64_alphabet_def)

lemma a2b_b2a: "n < 64 \<Longrightarrow> table_a2b_base64 (table_b2a_base64 n) = Some n"
  by (simp add: table_a2b_base64_def table_b2a_base64_def index_of_nth distinct_b64_alphabet
      length_b64_alphabet)

lemma b2a_in_alphabet: "n < 64 \<Longrightarrow> table_b2a_base64 n \<in> set b64_alphabet"
  by (simp add: table_b2a_base64_def length_b64_alphabet)

lemma pad_not_in_alphabet: "CHR ''='' \<notin> set b64_alphabet"
  by (simp add: b64_alphabet_def)

lemma b2a_not_pad: "n < 64 \<Longrightarrow> table_b2a_base64 n \<noteq> CHR ''=''"
  using b2a_in_alphabet pad_not_in_alphabet by metis

lemma alphabet_ascii: "c \<in> set b64_alphabet \<Longrightarrow> (of_char c :: nat) < 128"
  by (auto simp: b64_alphabet_def)

lemma dec_quad:
  assumes "n1 < 64" "n2 < 64" "n3 < 64" "n4 < 64"
  shows "a2b_base64 0 lc pads out
           (table_b2a_base64 n1 # table_b2a_base64 n2 # table_b2a_base64 n3 # table_b2a_base64 n4 # rest) =
         a2b_base64 0 0 0
           (out @ [of_nat (n1 * 4 + n2 div 16), of_nat (n2 mod 16 * 16 + n3 div 4),
                   of_nat (n3 mod 4 * 64 + n4)]) rest"
  using assms by (simp add: a2b_b2a b2a_not_pad)

lemma dec_tail2:
  assumes "n1 < 64" "n2 < 64"
  shows "a2b_base64 0 lc pads out
           [table_b2a_base64 n1, table_b2a_base64 n2, CHR ''='', CHR ''=''] =
         Inr (out @ [of_nat (n1 * 4 + n2 div 16)])"
  using assms by (simp add: a2b_b2a b2a_not_pad)

lemma dec_tail3:
  assumes "n1 < 64" "n2 < 64" "n3 < 64"
  shows "a2b_base64 0 lc pads out
           [table_b2a_base64 n1, table_b2a_base64 n2, table_b2a_base64 n3, CHR ''=''] =
         Inr (out @ [of_nat (n1 * 4 + n2 div 16), of_nat (n2 mod 16 * 16 + n3 div 4)])"
  using assms by (simp add: a2b_b2a b2a_not_pad)

lemma unat_byte_lt: "unat (a :: byte) < 256"
  using unsigned_less[of a, where ?'a = nat] by simp

lemma sextet_bounds:
  fixes a b c :: byte
  shows "unat a div 4 < 64"
    and "unat a mod 4 * 16 < 64"
    and "unat a mod 4 * 16 + unat b div 16 < 64"
    and "unat b mod 16 * 4 < 64"
    and "unat b mod 16 * 4 + unat c div 64 < 64"
    and "unat c mod 64 < 64"
proof -
  show "unat a div 4 < 64" using unat_byte_lt[of a] by simp
  have a4: "unat a mod 4 < 4" by simp
  then show "unat a mod 4 * 16 < 64" by linarith
  have "unat b div 16 < 16" using unat_byte_lt[of b] by simp
  with a4 show "unat a mod 4 * 16 + unat b div 16 < 64" by linarith
  have b16: "unat b mod 16 < 16" by simp
  then show "unat b mod 16 * 4 < 64" by linarith
  have "unat c div 64 < 4" using unat_byte_lt[of c] by simp
  with b16 show "unat b mod 16 * 4 + unat c div 64 < 64" by linarith
  show "unat c mod 64 < 64" by simp
qed

lemma byte_of_unat: "n = unat a \<Longrightarrow> of_nat n = (a :: byte)"
  by simp

lemma regroup1:
  fixes a b :: byte
  shows "of_nat (unat a div 4 * 4 + (unat a mod 4 * 16 + unat b div 16) div 16) = a"
proof (rule byte_of_unat)
  have "unat b div 16 < 16" using unat_byte_lt[of b] by simp
  then have "(unat a mod 4 * 16 + unat b div 16) div 16 = unat a mod 4" by simp
  then show "unat a div 4 * 4 + (unat a mod 4 * 16 + unat b div 16) div 16 = unat a" by simp
qed

lemma regroup1':
  fixes a :: byte
  shows "of_nat (unat a div 4 * 4 + (unat a mod 4 * 16) div 16) = a"
  by (rule byte_of_unat) simp

lemma regroup2:
  fixes a b c :: byte
  shows "of_nat ((unat a mod 4 * 16 + unat b div 16) mod 16 * 16 +
                 (unat b mod 16 * 4 + unat c div 64) div 4) = b"
proof (rule byte_of_unat)
  have lt: "unat b div 16 < 16" using unat_byte_lt[of b] by simp
  then have 1: "(unat a mod 4 * 16 + unat b div 16) mod 16 = unat b div 16" by simp
  have "unat c div 64 < 4" using unat_byte_lt[of c] by simp
  then have 2: "(unat b mod 16 * 4 + unat c div 64) div 4 = unat b mod 16" by simp
  show "(unat a mod 4 * 16 + unat b div 16) mod 16 * 16 +
          (unat b mod 16 * 4 + unat c div 64) div 4 = unat b"
    unfolding 1 2 by simp
qed

lemma regroup2':
  fixes a b :: byte
  shows "of_nat ((unat a mod 4 * 16 + unat b div 16) mod 16 * 16 + (unat b mod 16 * 4) div 4) = b"
proof (rule byte_of_unat)
  have "unat b div 16 < 16" using unat_byte_lt[of b] by simp
  then have 1: "(unat a mod 4 * 16 + unat b div 16) mod 16 = unat b div 16" by simp
  have 2: "(unat b mod 16 * 4) div 4 = unat b mod 16" by simp
  show "(unat a mod 4 * 16 + unat b div 16) mod 16 * 16 + (unat b mod 16 * 4) div 4 = unat b"
    unfolding 1 2 by simp
qed

lemma regroup3:
  fixes b c :: byte
  shows "of_nat ((unat b mod 16 * 4 + unat c div 64) mod 4 * 64 + unat c mod 64) = c"
proof (rule byte_of_unat)
  have "unat c div 64 < 4" using unat_byte_lt[of c] by simp
  then have 1: "(unat b mod 16 * 4 + unat c div 64) mod 4 = unat c div 64" by simp
  show "(unat b mod 16 * 4 + unat c div 64) mod 4 * 64 + unat c mod 64 = unat c"
    unfolding 1 by simp
qed

lemma a2b_b64encode: "a2b_base64 0 0 0 out (b64encode bs) = Inr (out @ bs)"
proof (induction bs arbitrary: out rule: b64encode.induct)
  case 1
  then show ?case by simp
next
  case (2 a)
  have "a2b_base64 0 0 0 out (b64encode [a]) =
          Inr (out @ [of_nat (unat a div 4 * 4 + (unat a mod 4 * 16) div 16)])"
    unfolding b64encode.simps by (rule dec_tail2) (rule sextet_bounds)+
  then show ?case by (simp only: regroup1')
next
  case (3 a b)
  have "a2b_base64 0 0 0 out (b64encode [a, b]) =
          Inr (out @ [of_nat (unat a div 4 * 4 + (unat a mod 4 * 16 + unat b div 16) div 16),
                      of_nat ((unat a mod 4 * 16 + unat b div 16) mod 16 * 16 + (unat b mod 16 * 4) div 4)])"
    unfolding b64encode.simps by (rule dec_tail3) (rule sextet_bounds)+
  then show ?case by (simp only: regroup1 regroup2')
next
  case (4 a b c rest)
  have "a2b_base64 0 0 0 out (b64encode (a # b # c # rest)) =
          a2b_base64 0 0 0
            (out @ [of_nat (unat a div 4 * 4 + (unat a mod 4 * 16 + unat b div 16) div 16),
                    of_nat ((unat a mod 4 * 16 + unat b div 16) mod 16 * 16 +
                            (unat b mod 16 * 4 + unat c div 64) div 4),
                    of_nat ((unat b mod 16 * 4 + unat c div 64) mod 4 * 64 + unat c mod 64)])
            (b64encode rest)"
    unfolding b64encode.simps append.simps by (rule dec_quad) (rule sextet_bounds)+
  then show ?case by (simp only: regroup1 regroup2 regroup3 "4.IH") simp
qed

lemma b64encode_chars: "c \<in> set (b64encode bs) \<Longrightarrow> c \<in> set b64_alphabet \<or> c = CHR ''=''"
proof (induction bs rule: b64encode.induct)
  case 1
  then show ?case by simp
next
  case (2 a)
  then show ?case
    using b2a_in_alphabet[OF sextet_bounds(1)[of a]] b2a_in_alphabet[OF sextet_bounds(2)[of a]]
    by auto
next
  case (3 a b)
  then show ?case
    using b2a_in_alphabet[OF sextet_bounds(1)[of a]] b2a_in_alphabet[OF sextet_bounds(3)[of a b]]
      b2a_in_alphabet[OF sextet_bounds(4)[of b]]
    by auto
next
  case (4 a b c rest)
  then show ?case
    using b2a_in_alphabet[OF sextet_bounds(1)[of a]] b2a_in_alphabet[OF sextet_bounds(3)[of a b]]
      b2a_in_alphabet[OF sextet_bounds(5)[of b c]] b2a_in_alphabet[OF sextet_bounds(6)[of c]]
    by auto
qed

lemma b64encode_ascii: "\<not> list_ex (\<lambda>c. of_char c \<ge> (128::nat)) (b64encode bs)"
proof -
  have "(of_char c :: nat) < 128" if "c \<in> set (b64encode bs)" for c
    using b64encode_chars[OF that] alphabet_ascii by auto
  then show ?thesis by (fastforce simp: list_ex_iff)
qed

lemma b64_roundtrip: "b64decode (b64encode bs) = Inr bs"
  by (simp add: b64decode_def b64encode_ascii a2b_b64encode)

subsection \<open>The loop over the files\<close>

lemma scan_step:
  assumes "scan_files L mx sp (f # fs) st = Inr st'"
  obtains
    (notfile) "\<not> e_is_file f" "scan_files L mx sp fs st = Inr st'"
  | (skipped) "e_is_file f" "skip_check L sp f = Inr True"
      "scan_files L mx sp fs (st\<lparr>st_skipped := st_skipped st @ [e_path f]\<rparr>) = Inr st'"
  | (large) n m where "e_is_file f" "skip_check L sp f = Inr False" "e_size f = Inr n"
      "mx = Some m" "int n > m"
      "scan_files L mx sp fs
         (st\<lparr>st_skipped := st_skipped st @
            [e_path f @ '' (too large: '' @ fmt_mb L n @ ''MB)'']\<rparr>) = Inr st'"
  | (unreadable) n m e where "e_is_file f" "skip_check L sp f = Inr False" "e_size f = Inr n"
      "mx = Some m" "\<not> int n > m" "e_bytes f = Inl e"
      "scan_files L mx sp fs
         (st\<lparr>st_skipped := st_skipped st @ [e_path f @ '' (error: '' @ e @ '')'']\<rparr>) = Inr st'"
  | (stored) n m C where "e_is_file f" "skip_check L sp f = Inr False" "e_size f = Inr n"
      "mx = Some m" "\<not> int n > m" "e_bytes f = Inr C"
      "scan_files L mx sp fs
         (st\<lparr>st_contents := AList.update (e_rel f) (b64encode C) (st_contents st),
             st_total := st_total st + n\<rparr>) = Inr st'"
  using assms
  by (auto split: if_splits sum.splits option.splits bool.splits)

lemma set_alist_update:
  "(k', v') \<in> set (AList.update k v al) \<Longrightarrow> (k', v') = (k, v) \<or> (k', v') \<in> set al"
  by (induction al) (auto split: if_splits)

lemma scan_skipped_mono:
  "scan_files L mx sp fs st = Inr st' \<Longrightarrow> x \<in> set (st_skipped st) \<Longrightarrow> x \<in> set (st_skipped st')"
proof (induction fs arbitrary: st)
  case Nil
  then show ?case by simp
next
  case (Cons f fs)
  from Cons.prems(1) show ?case
    by (cases rule: scan_step) (use Cons.IH Cons.prems(2) in auto)
qed

lemma scan_matched_skipped:
  "scan_files L mx sp fs st = Inr st' \<Longrightarrow> f \<in> set fs \<Longrightarrow> e_is_file f \<Longrightarrow>
   skip_check L sp f = Inr True \<Longrightarrow> e_path f \<in> set (st_skipped st')"
proof (induction fs arbitrary: st)
  case Nil
  then show ?case by simp
next
  case (Cons g fs)
  show ?case
  proof (cases "f = g")
    case True
    from Cons.prems(1) show ?thesis
      by (cases rule: scan_step) (use True Cons.prems scan_skipped_mono in auto)
  next
    case False
    then have "f \<in> set fs" using Cons.prems(2) by simp
    from Cons.prems(1) show ?thesis
      by (cases rule: scan_step) (use Cons.IH \<open>f \<in> set fs\<close> Cons.prems(3,4) in auto)
  qed
qed

lemma scan_contents_origin:
  "scan_files L mx sp fs st = Inr st' \<Longrightarrow> (k, v) \<in> set (st_contents st') \<Longrightarrow>
   (k, v) \<in> set (st_contents st) \<or>
   (\<exists>g \<in> set fs. e_is_file g \<and> skip_check L sp g = Inr False \<and> k = e_rel g \<and>
                    (\<exists>C. e_bytes g = Inr C \<and> v = b64encode C))"
proof (induction fs arbitrary: st)
  case Nil
  then show ?case by simp
next
  case (Cons f fs)
  from Cons.prems(1) show ?case
  proof (cases rule: scan_step)
    case notfile
    from Cons.IH[OF notfile(2) Cons.prems(2)] show ?thesis by auto
  next
    case skipped
    from Cons.IH[OF skipped(3) Cons.prems(2)] show ?thesis by auto
  next
    case (large n m)
    from Cons.IH[OF large(6) Cons.prems(2)] show ?thesis by auto
  next
    case (unreadable n m e)
    from Cons.IH[OF unreadable(7) Cons.prems(2)] show ?thesis by auto
  next
    case (stored n m C)
    from Cons.IH[OF stored(7) Cons.prems(2)] show ?thesis
    proof
      assume "(k, v) \<in> set (st_contents
         (st\<lparr>st_contents := AList.update (e_rel f) (b64encode C) (st_contents st),
             st_total := st_total st + n\<rparr>))"
      then have "(k, v) \<in> set (AList.update (e_rel f) (b64encode C) (st_contents st))" by simp
      from set_alist_update[OF this] show ?thesis using stored by auto
    next
      assume "\<exists>g\<in>set fs. e_is_file g \<and> skip_check L sp g = Inr False \<and> k = e_rel g \<and>
                    (\<exists>C. e_bytes g = Inr C \<and> v = b64encode C)"
      then show ?thesis by auto
    qed
  qed
qed

subsection \<open>Preparing a folder\<close>

lemma prepare_entry:
  assumes "prepare_local_folder L fs now_id now_ts dc folder mx sp = (Success r, dc')"
    and "dc' (cache_id r) = Some e"
  shows "\<exists>st. scan_files L mx sp (fv_rglob (fs folder))
              \<lparr>st_contents = [], st_total = 0, st_skipped = []\<rparr> = Inr st \<and>
            file_contents e = st_contents st \<and>
            skipped_files (summary r) = length (st_skipped st) \<and>
            skipped_details (summary r) = take 10 (st_skipped st) \<and>
            total_files (summary r) = length (st_contents st)"
  using prepare_success[OF assms(1)] assms(2) by auto

lemma save_decoded:
  assumes "b64decode content_b64 = Inr bs"
    and "(if create_dirs then d_mkdir_error d (path_str L target) else None) = None"
    and "d_write_error d (path_str L target) = None"
  shows "save_download_locally L d content_b64 target create_dirs =
           (Success \<lparr>saved_path = path_str L target, saved_size = length bs\<rparr>,
            d\<lparr>d_files := (d_files d)(path_str L target \<mapsto> bs)\<rparr>)"
  using assms by (simp add: save_download_locally_def Let_def)

lemma sample_entry_lookup:
  "(dc(''folder_20250102_100000_4'' \<mapsto> sample_entry ts))
     (cache_id \<lparr>cache_id = ''folder_20250102_100000_4'', summary = sm\<rparr>) = Some (sample_entry ts)"
  by simp

lemma sample_inj: "inj_on e_rel (set (fv_rglob (sample_folder ''data'')))"
  by (simp add: sample_rglob_data train_csv_def run_log_def)

lemma scan_all_matched:
  "list_all (\<lambda>f. e_is_file f \<and> skip_check L sp f = Inr True) fs \<Longrightarrow>
   scan_files L mx sp fs st = Inr (st\<lparr>st_skipped := st_skipped st @ map e_path fs\<rparr>)"
  by (induction fs arbitrary: st) auto

lemma scan_all_matched_record:
  "list_all (\<lambda>f. e_is_file f \<and> skip_check L sp f = Inr True) fs \<Longrightarrow>
   scan_files L mx sp fs \<lparr>st_contents = c, st_total = t, st_skipped = sk\<rparr> =
     Inr \<lparr>st_contents = c, st_total = t, st_skipped = sk @ map e_path fs\<rparr>"
  using scan_all_matched[of L sp fs mx "\<lparr>st_contents = c, st_total = t, st_skipped = sk\<rparr>"]
  by simp

lemma log_entry_matches:
  "e_is_file (log_entry [c]) \<and> skip_check sample_lib (Some [''*.log'']) (log_entry [c]) = Inr True"
  by (simp add: skip_check_def sample_lib_def sample_match_def log_entry_def path_name_def)

lemma sample_prepare_logs:
  "prepare_local_folder sample_lib sample_folder (at_time 2 10 0 0 0) ts dc ''logs''
      (Some 104857600) (Some [''*.log'']) =
   (Success \<lparr>cache_id = ''folder_20250102_100000_4'',
             summary = \<lparr>total_files = 0, total_size = 0, total_size_mb = ''0'',
                        skipped_files = 11,
                        skipped_details =
                          [''logs/a.log'', ''logs/b.log'', ''logs/c.log'', ''logs/d.log'',
                           ''logs/e.log'', ''logs/f.log'', ''logs/g.log'', ''logs/h.log'',
                           ''logs/i.log'', ''logs/j.log'']\<rparr>\<rparr>,
    dc(''folder_20250102_100000_4'' \<mapsto>
         \<lparr>folder_structure = [], file_contents = [], timestamp = ts, source_path = ''logs''\<rparr>))"
proof -
  let ?fs = "[log_entry ''a'', log_entry ''b'', log_entry ''c'', log_entry ''d'', log_entry ''e'',
            log_entry ''f'', log_entry ''g'', log_entry ''h'', log_entry ''i'', log_entry ''j'',
            log_entry ''k'']"
  have v: "fv_exists (sample_folder ''logs'')" "fv_is_dir (sample_folder ''logs'')"
    "fv_analysis (sample_folder ''logs'') = Inr []" "fv_rglob (sample_folder ''logs'') = ?fs"
    by (simp_all add: sample_folder_def)
  have "list_all (\<lambda>f. e_is_file f \<and> skip_check sample_lib (Some [''*.log'']) f = Inr True) ?fs"
    by (simp add: log_entry_matches)
  then have "scan_files sample_lib (Some 104857600) (Some [''*.log'']) ?fs
              \<lparr>st_contents = [], st_total = 0, st_skipped = []\<rparr> =
            Inr \<lparr>st_contents = [], st_total = 0, st_skipped = [] @ map e_path ?fs\<rparr>"
    by (rule scan_all_matched_record)
  moreover have "map e_path ?fs =
      [''logs/a.log'', ''logs/b.log'', ''logs/c.log'', ''logs/d.log'', ''logs/e.log'',
       ''logs/f.log'', ''logs/g.log'', ''logs/h.log'', ''logs/i.log'', ''logs/j.log'',
       ''logs/k.log'']"
    by (simp add: log_entry_def)
  ultimately have sc: "scan_files sample_lib (Some 104857600) (Some [''*.log'']) ?fs
              \<lparr>st_contents = [], st_total = 0, st_skipped = []\<rparr> =
            Inr \<lparr>st_contents = [], st_total = 0, st_skipped =
      [''logs/a.log'', ''logs/b.log'', ''logs/c.log'', ''logs/d.log'', ''logs/e.log'',
       ''logs/f.log'', ''logs/g.log'', ''logs/h.log'', ''logs/i.log'', ''logs/j.log'',
       ''logs/k.log'']\<rparr>"
    by (simp only: append_Nil)
  have r: "round_mb sample_lib 0 = ''0''"
    by (simp add: sample_lib_def str_nat.simps digit_def)
  have id: "make_cache_id sample_lib (at_time 2 10 0 0 0) ''logs'' = ''folder_20250102_100000_4''"
    by (simp add: make_cache_id_def sample_lib_def at_time_def strftime_stamp_def dig2_def dig4_def
        digit_def str_int_def str_nat.simps)
  show ?thesis
    unfolding prepare_local_folder_def Let_def v sc
    by (simp add: r id v(1,2))
qed

text \<open>
  Claim C6. For every byte string \<open>C\<close>, decoding the base64 encoding of \<open>C\<close> yields \<open>C\<close>.
  A file of the prepared folder with bytes \<open>C\<close> that \<^verbatim>\<open>prepare_local_folder\<close> stored
  under its relative path is stored as the base64 encoding of \<open>C\<close>; handing that string
  to \<^verbatim>\<open>save_download_locally\<close> writes exactly \<open>C\<close> to the target (when creating the
  directories and writing do not fail) and reports the length of \<open>C\<close> as the size. The
  relative paths that \<^verbatim>\<open>rglob\<close> yields are distinct.
\<close>

theorem base64_round_trip_prepare_save:
  assumes prep: "prepare_local_folder L fs now_id now_ts dc folder mx sp = (Success r, dc')"
    and ent: "dc' (cache_id r) = Some e"
    and f: "f \<in> set (fv_rglob (fs folder))"
    and inj: "inj_on e_rel (set (fv_rglob (fs folder)))"
    and bytes: "e_bytes f = Inr C"
    and stored: "(e_rel f, content_b64) \<in> set (file_contents e)"
    and mk: "(if create_dirs then d_mkdir_error d (path_str L target) else None) = None"
    and wr: "d_write_error d (path_str L target) = None"
  shows "content_b64 = b64encode C \<and> b64decode (b64encode C) = Inr C \<and>
         save_download_locally L d content_b64 target create_dirs =
           (Success \<lparr>saved_path = path_str L target, saved_size = length C\<rparr>,
            d\<lparr>d_files := (d_files d)(path_str L target \<mapsto> C)\<rparr>)"
proof -
  from prepare_entry[OF prep ent] obtain st where
    sc: "scan_files L mx sp (fv_rglob (fs folder))
           \<lparr>st_contents = [], st_total = 0, st_skipped = []\<rparr> = Inr st"
    and fc: "file_contents e = st_contents st" by blast
  from scan_contents_origin[OF sc, of "e_rel f" content_b64] stored fc
  obtain g D where g: "g \<in> set (fv_rglob (fs folder))" "e_rel f = e_rel g"
    "e_bytes g = Inr D" "content_b64 = b64encode D" by auto
  from inj f g(1,2) have "f = g" by (auto dest: inj_onD)
  with g bytes have c: "content_b64 = b64encode C" by simp
  have rt: "b64decode content_b64 = Inr C" unfolding c by (rule b64_roundtrip)
  show ?thesis using c rt save_decoded[OF rt mk wr] by simp
qed

theorem base64_round_trip_prepare_save_witness:
  "b64decode ''YSxiCg=='' = Inr [0x61, 0x2C, 0x62, 0x0A] \<and>
   save_download_locally sample_lib sample_disk ''YSxiCg=='' ''out/train.csv'' True =
     (Success \<lparr>saved_path = ''out/train.csv'', saved_size = 4\<rparr>,
      sample_disk\<lparr>d_files := (d_files sample_disk)(''out/train.csv'' \<mapsto> [0x61, 0x2C, 0x62, 0x0A])\<rparr>)"
proof -
  have f: "train_csv \<in> set (fv_rglob (sample_folder ''data''))"
    by (simp add: sample_rglob_data)
  have b: "e_bytes train_csv = Inr [0x61, 0x2C, 0x62, 0x0A]"
    by (simp add: train_csv_def)
  have st: "(e_rel train_csv, ''YSxiCg=='') \<in> set (file_contents (sample_entry (at_time 2 10 0 0 0)))"
    by (simp add: train_csv_def sample_entry_def)
  have mk: "(if True then d_mkdir_error sample_disk (path_str sample_lib ''out/train.csv'') else None) = None"
    by (simp add: sample_disk_def)
  have wr: "d_write_error sample_disk (path_str sample_lib ''out/train.csv'') = None"
    by (simp add: sample_disk_def)
  have p: "path_str sample_lib ''out/train.csv'' = ''out/train.csv''"
    by (simp add: sample_lib_def)
  have l: "length [0x61, 0x2C, 0x62, 0x0A :: byte] = 4" by simp
  note w = base64_round_trip_prepare_save[OF sample_prepare_data sample_entry_lookup f sample_inj b st mk wr]
  from w have e: "''YSxiCg=='' = b64encode [0x61, 0x2C, 0x62, 0x0A]" by (rule conjunct1)
  from w have d: "b64decode (b64encode [0x61, 0x2C, 0x62, 0x0A]) = Inr [0x61, 0x2C, 0x62, 0x0A]"
    by blast
  from w have sv: "save_download_locally sample_lib sample_disk ''YSxiCg=='' ''out/train.csv'' True =
     (Success \<lparr>saved_path = ''out/train.csv'', saved_size = 4\<rparr>,
      sample_disk\<lparr>d_files := (d_files sample_disk)(''out/train.csv'' \<mapsto> [0x61, 0x2C, 0x62, 0x0A])\<rparr>)"
    unfolding p l by (rule conjunct2[THEN conjunct2])
  show ?thesis using d[folded e] sv by (rule conjI)
qed

text \<open>
  Claim C3, as amended. For a successful \<^verbatim>\<open>prepare_local_folder\<close>, every regular file
  under the root that matches one of the skip patterns is among the skipped entries
  that the loop over the files collects; the summary's \<open>skipped_files\<close> is the number of
  these entries, and \<open>skipped_details\<close> is their first ten. So the file's path appears
  in \<open>skipped_details\<close> whenever at most ten files were skipped, and its relative path
  is never a key of the cached \<open>file_contents\<close>.
\<close>

theorem skipped_pattern_files:
  assumes prep: "prepare_local_folder L fs now_id now_ts dc folder mx sp = (Success r, dc')"
    and ent: "dc' (cache_id r) = Some e"
    and f: "f \<in> set (fv_rglob (fs folder))" "e_is_file f"
    and m: "skip_check L sp f = Inr True"
    and inj: "inj_on e_rel (set (fv_rglob (fs folder)))"
  shows "(\<exists>st. scan_files L mx sp (fv_rglob (fs folder))
                 \<lparr>st_contents = [], st_total = 0, st_skipped = []\<rparr> = Inr st \<and>
               e_path f \<in> set (st_skipped st) \<and>
               skipped_files (summary r) = length (st_skipped st) \<and>
               skipped_details (summary r) = take 10 (st_skipped st) \<and>
               file_contents e = st_contents st) \<and>
         1 \<le> skipped_files (summary r) \<and>
         (skipped_files (summary r) \<le> 10 \<longrightarrow> e_path f \<in> set (skipped_details (summary r))) \<and>
         e_rel f \<notin> fst ` set (file_contents e)"
proof -
  from prepare_entry[OF prep ent] obtain st where
    sc: "scan_files L mx sp (fv_rglob (fs folder))
           \<lparr>st_contents = [], st_total = 0, st_skipped = []\<rparr> = Inr st"
    and fc: "file_contents e = st_contents st"
    and n: "skipped_files (summary r) = length (st_skipped st)"
    and d: "skipped_details (summary r) = take 10 (st_skipped st)" by blast
  have sk: "e_path f \<in> set (st_skipped st)"
    by (rule scan_matched_skipped[OF sc f m])
  then have pos: "1 \<le> length (st_skipped st)"
    by (cases "st_skipped st") auto
  have key: "e_rel f \<notin> fst ` set (file_contents e)"
  proof
    assume "e_rel f \<in> fst ` set (file_contents e)"
    then obtain v where "(e_rel f, v) \<in> set (st_contents st)" using fc by auto
    from scan_contents_origin[OF sc this]
    obtain g where g: "g \<in> set (fv_rglob (fs folder))" "skip_check L sp g = Inr False"
      "e_rel f = e_rel g" by auto
    from inj f(1) g(1,3) have "f = g" by (auto dest: inj_onD)
    with g(2) m show False by simp
  qed
  have ex: "\<exists>st. scan_files L mx sp (fv_rglob (fs folder))
                 \<lparr>st_contents = [], st_total = 0, st_skipped = []\<rparr> = Inr st \<and>
               e_path f \<in> set (st_skipped st) \<and>
               skipped_files (summary r) = length (st_skipped st) \<and>
               skipped_details (summary r) = take 10 (st_skipped st) \<and>
               file_contents e = st_contents st"
    using sc sk n d fc by blast
  have few: "skipped_files (summary r) \<le> 10 \<longrightarrow> e_path f \<in> set (skipped_details (summary r))"
    using sk n d by simp
  show ?thesis using ex pos n few key by simp
qed

theorem skipped_pattern_files_witness:
  "e_path run_log \<in> set [''data/run.log''] \<and>
   e_rel run_log \<notin> fst ` set (file_contents (sample_entry (at_time 2 10 0 0 0)))"
proof -
  have f: "run_log \<in> set (fv_rglob (sample_folder ''data''))" "e_is_file run_log"
    by (simp_all add: sample_rglob_data run_log_def)
  have m: "skip_check sample_lib (Some [''*.log'']) run_log = Inr True"
    by (simp add: skip_check_def sample_lib_def sample_match_def run_log_def path_name_def)
  note w = skipped_pattern_files[OF sample_prepare_data sample_entry_lookup f m sample_inj]
  from w[THEN conjunct2] show ?thesis by simp
qed

text \<open>
  Claim C3 as stated fails in a folder of eleven \<^verbatim>\<open>.log\<close> files prepared with the
  pattern \<^verbatim>\<open>*.log\<close>: the eleventh file matches and is counted, but \<open>skipped_details\<close>
  ends after the tenth.
\<close>

theorem skipped_details_truncated_counterexample:
  "log_entry ''k'' \<in> set (fv_rglob (sample_folder ''logs'')) \<and>
   e_is_file (log_entry ''k'') \<and>
   skip_check sample_lib (Some [''*.log'']) (log_entry ''k'') = Inr True \<and>
   fst (prepare_local_folder sample_lib sample_folder (at_time 2 10 0 0 0) (at_time 2 10 0 0 0)
          Map.empty ''logs'' (Some 104857600) (Some [''*.log''])) =
     Success \<lparr>cache_id = ''folder_20250102_100000_4'',
             summary = \<lparr>total_files = 0, total_size = 0, total_size_mb = ''0'',
                        skipped_files = 11,
                        skipped_details =
                          [''logs/a.log'', ''logs/b.log'', ''logs/c.log'', ''logs/d.log'',
                           ''logs/e.log'', ''logs/f.log'', ''logs/g.log'', ''logs/h.log'',
                           ''logs/i.log'', ''logs/j.log'']\<rparr>\<rparr> \<and>
   e_path (log_entry ''k'') \<notin>
     set [''logs/a.log'', ''logs/b.log'', ''logs/c.log'', ''logs/d.log'',
          ''logs/e.log'', ''logs/f.log'', ''logs/g.log'', ''logs/h.log'',
          ''logs/i.log'', ''logs/j.log'']"
proof -
  have 1: "log_entry ''k'' \<in> set (fv_rglob (sample_folder ''logs''))"
    by (simp add: sample_folder_def)
  have 2: "e_path (log_entry ''k'') \<notin>
     set [''logs/a.log'', ''logs/b.log'', ''logs/c.log'', ''logs/d.log'',
          ''logs/e.log'', ''logs/f.log'', ''logs/g.log'', ''logs/h.log'',
          ''logs/i.log'', ''logs/j.log'']"
    by (simp add: log_entry_def)
  show ?thesis
    using 1 2 log_entry_matches[of "CHR ''k''"]
    by (simp only: sample_prepare_logs fst_conv simp_thms)
qed

subsection \<open>Exploring a directory\<close>

lemma sample_sorted:
  "sort_key p_name [Directory ''sub'' [RegularFile ''b.txt'' 7 1700000000], RegularFile ''a.txt'' 5 1700000001]
   = [RegularFile ''a.txt'' 5 1700000001, Directory ''sub'' [RegularFile ''b.txt'' 7 1700000000]]"
  by (simp add: less_eq_char_def less_char_def)

text \<open>
  Claim C2 on the directory \<^verbatim>\<open>project\<close> explored with \<^verbatim>\<open>max_depth = 1\<close>: the regular
  file \<^verbatim>\<open>a.txt\<close> is reached at depth 1 and comes back as a truncated node of type
  \<^verbatim>\<open>directory\<close>, without size, modification time or extension. The depth test of
  \<^verbatim>\<open>explore_tree\<close> comes before the test \<^verbatim>\<open>p.is_file()\<close>.
\<close>

theorem explore_directory_file_at_depth_limit:
  "explore_directory sample_lib sample_tree_fs ''project'' (Some 1) False =
     Success \<lparr>tree = DirNode ''project'' [TruncatedNode ''a.txt'', TruncatedNode ''sub''] 2,
              base_path = ''project''\<rparr> \<and>
   node_type (TruncatedNode ''a.txt'') = ''directory''"
  by (simp add: explore_directory_def sample_tree_fs_def sample_tree_def sample_sorted is_hidden_def
      sample_lib_def)

lemma explore_directory_depth_two:
  "explore_directory sample_lib sample_tree_fs ''project'' (Some 2) False =
     Success \<lparr>tree = DirNode ''project'' [FileNode ''a.txt'' 5 1700000001 ''.txt'', DirNode ''sub'' [TruncatedNode ''b.txt''] 1] 2,
              base_path = ''project''\<rparr>"
  by (simp add: explore_directory_def sample_tree_fs_def sample_tree_def sample_sorted is_hidden_def
      sample_lib_def path_suffix_def rfind_def)

subsection \<open>Credentials, single files and datasets\<close>

lemma sample_key_of_pattern:
  "CHR ''['' \<notin> set key \<Longrightarrow> takeWhile (\<lambda>c. c \<noteq> CHR ''['') (tl (mask_pattern key)) = key"
  by (simp add: mask_pattern_def takeWhile_append)

lemma upper_api_key: "map upper_char ''API_KEY'' = ''API_KEY''"
  by (simp add: upper_char_def ascii_lowercase_def)

lemma sample_mask_keys:
  "mask_assignment ''KEY'' ''API_KEY=abc123'' = ''API_KEY='' @ [CHR 0x22] @ ''***MASKED***'' @ [CHR 0x22]"
  "mask_assignment ''SECRET'' (''API_KEY='' @ [CHR 0x22] @ ''***MASKED***'' @ [CHR 0x22]) =
     ''API_KEY='' @ [CHR 0x22] @ ''***MASKED***'' @ [CHR 0x22]"
  "mask_assignment ''TOKEN'' (''API_KEY='' @ [CHR 0x22] @ ''***MASKED***'' @ [CHR 0x22]) =
     ''API_KEY='' @ [CHR 0x22] @ ''***MASKED***'' @ [CHR 0x22]"
  "mask_assignment ''PASSWORD'' (''API_KEY='' @ [CHR 0x22] @ ''***MASKED***'' @ [CHR 0x22]) =
     ''API_KEY='' @ [CHR 0x22] @ ''***MASKED***'' @ [CHR 0x22]"
  by (simp_all add: mask_assignment_def upper_api_key)

lemma sample_mask_content:
  "mask_content sample_lib ''API_KEY=abc123'' = ''API_KEY='' @ [CHR 0x22] @ ''***MASKED***'' @ [CHR 0x22]"
proof -
  have r: "re_sub sample_lib (mask_pattern key) repl s = mask_assignment key s"
    if "CHR ''['' \<notin> set key" for key repl s
    using that by (simp add: sample_lib_def sample_re_sub_def sample_key_of_pattern)
  have k: "re_sub sample_lib (mask_pattern ''KEY'') repl s = mask_assignment ''KEY'' s"
    "re_sub sample_lib (mask_pattern ''SECRET'') repl s = mask_assignment ''SECRET'' s"
    "re_sub sample_lib (mask_pattern ''TOKEN'') repl s = mask_assignment ''TOKEN'' s"
    "re_sub sample_lib (mask_pattern ''PASSWORD'') repl s = mask_assignment ''PASSWORD'' s"
    for repl s
    by (simp_all add: r)
  show ?thesis
    unfolding mask_content_def foldl.simps
    by (simp only: k sample_mask_keys)
qed

text \<open>
  Claim C7. When \<^verbatim>\<open>read_credentials\<close> succeeds, \<open>credentials_text\<close> is the text read
  from the file at \<open>source_path\<close>, exactly as read; the returned payload is the same
  whatever the masking substitution does, and the masked copy occurs only in the debug
  record handed to the logger.
\<close>

theorem read_credentials_returns_unmasked:
  assumes "read_credentials L fs creds_path provider = (Success r, logs)"
  shows "c_read_text fs (cred_source_path r) = Inr (credentials_text r) \<and>
         fst (read_credentials (L\<lparr>re_sub := other_sub\<rparr>) fs creds_path provider) = Success r \<and>
         logs = [(INFO, ''Read credentials from: '' @ cred_source_path r),
                 (DEBUG, ''Masked content: '' @
                    take 200 (mask_content L (credentials_text r)) @ ''...'')]"
  using assms
  by (auto simp: read_credentials_def locate_credentials_def Let_def
           split: option.splits sum.splits if_splits)

lemma sample_locate:
  "locate_credentials sample_lib sample_creds ''creds.env'' = Some ''/home/u/.aws/credentials''"
  by (simp add: locate_credentials_def sample_lib_def sample_creds_def joinpath_def Let_def)

lemma sample_read_credentials:
  "read_credentials sample_lib sample_creds ''creds.env'' (Some ''bedrock'') =
     (Success \<lparr>credentials_text = ''API_KEY=abc123'',
               cred_source_path = ''/home/u/.aws/credentials'',
               provider_hint = Some ''bedrock''\<rparr>,
      [(INFO, ''Read credentials from: /home/u/.aws/credentials''),
       (DEBUG, ''Masked content: API_KEY='' @ [CHR 0x22] @ ''***MASKED***'' @ [CHR 0x22] @ ''...'')])"
proof -
  have rd: "c_read_text sample_creds ''/home/u/.aws/credentials'' = Inr ''API_KEY=abc123''"
    by (simp add: sample_creds_def)
  show ?thesis
    unfolding read_credentials_def sample_locate
    by (simp add: rd sample_mask_content)
qed

theorem read_credentials_returns_unmasked_witness:
  "c_read_text sample_creds ''/home/u/.aws/credentials'' = Inr ''API_KEY=abc123'' \<and>
   fst (read_credentials (sample_lib\<lparr>re_sub := (\<lambda>pat repl s. s)\<rparr>) sample_creds ''creds.env''
          (Some ''bedrock'')) =
     Success \<lparr>credentials_text = ''API_KEY=abc123'',
              cred_source_path = ''/home/u/.aws/credentials'',
              provider_hint = Some ''bedrock''\<rparr>"
  using read_credentials_returns_unmasked[OF sample_read_credentials, of "\<lambda>pat repl s. s"] by simp

text \<open>
  Claim C9, as amended. \<^verbatim>\<open>read_local_file\<close> is called with \<^verbatim>\<open>as_text=True\<close> on a
  readable regular file and a known encoding. If decoding the file's bytes raises
  \<^verbatim>\<open>UnicodeDecodeError\<close>, the call does not fail: it returns success with the content
  base64-encoded and the encoding field \<^verbatim>\<open>base64\<close>. If decoding raises any other
  exception, the call fails with that exception's message.
\<close>

theorem read_local_file_decode_fallback:
  assumes "f_exists (fs file_path)" and "f_is_file (fs file_path)"
    and "f_stat (fs file_path) = Inr stat"
    and "f_read_bytes (fs file_path) = Inr bs"
    and "codec_lookup L enc = Inr codec"
  shows "(codec bs = UnicodeDecodeError \<longrightarrow>
            read_local_file L fs file_path True enc =
              Success \<lparr>content = b64encode bs, encoding = ''base64'',
                       size_bytes = st_size stat, modified = st_mtime stat\<rparr>) \<and>
         (codec bs = DecodingRaised e \<longrightarrow>
            read_local_file L fs file_path True enc = Failure e)"
  using assms by (simp add: read_local_file_def read_text_def Let_def)

lemma sample_blob:
  "f_exists (sample_files ''blob.bin'')" "f_is_file (sample_files ''blob.bin'')"
  "f_stat (sample_files ''blob.bin'') = Inr \<lparr>st_size = 2, st_mtime = 1700000000\<rparr>"
  "f_read_bytes (sample_files ''blob.bin'') = Inr [0xFF, 0xFE]"
  by (simp_all add: sample_files_def)

theorem read_local_file_decode_fallback_witness:
  "read_local_file sample_lib sample_files ''blob.bin'' True ''ascii'' =
     Success \<lparr>content = ''//4='', encoding = ''base64'', size_bytes = 2, modified = 1700000000\<rparr>"
proof -
  have c: "codec_lookup sample_lib ''ascii'' = Inr ascii_codec"
    by (simp add: sample_lib_def sample_codec_lookup_def)
  have n: "ascii_codec [0xFF, 0xFE] = UnicodeDecodeError" by (simp add: ascii_codec_def)
  have e: "b64encode [0xFF, 0xFE] = ''//4=''"
    by (simp add: table_b2a_base64_def b64_alphabet_def)
  from read_local_file_decode_fallback[where fs = sample_files and file_path = "''blob.bin''",
         OF sample_blob c, THEN conjunct1] n
  show ?thesis unfolding e by simp
qed

text \<open>
  Claim C9 as stated fails for the encoding \<^verbatim>\<open>undefined\<close>: the bytes of \<^verbatim>\<open>blob.bin\<close>
  cannot be decoded with it, the exception is a plain \<^verbatim>\<open>UnicodeError\<close>, which
  \<^verbatim>\<open>except UnicodeDecodeError\<close> does not catch, and the call fails.
\<close>

theorem read_local_file_undefined_codec_counterexample:
  "codec_lookup sample_lib ''undefined'' = Inr undefined_codec \<and>
   undefined_codec [0xFF, 0xFE] = DecodingRaised ''undefined encoding'' \<and>
   read_local_file sample_lib sample_files ''blob.bin'' True ''undefined'' =
     Failure ''undefined encoding''"
proof -
  have c: "codec_lookup sample_lib ''undefined'' = Inr undefined_codec"
    by (simp add: sample_lib_def sample_codec_lookup_def)
  have n: "undefined_codec [0xFF, 0xFE] = DecodingRaised ''undefined encoding''"
    by (simp add: undefined_codec_def)
  have "read_local_file sample_lib sample_files ''blob.bin'' True ''undefined'' =
          Failure ''undefined encoding''"
    by (simp add: read_local_file_def read_text_def Let_def sample_blob c n)
  with c n show ?thesis by simp
qed

text \<open>
  Claim C10. For an existing file whose extension is neither \<^verbatim>\<open>.csv\<close> nor \<^verbatim>\<open>.json\<close>,
  \<^verbatim>\<open>validate_dataset\<close> succeeds with \<open>file_type\<close> equal to that extension, the file's
  size and the message \<^verbatim>\<open>File type not specifically validated\<close>. The extension is the
  code's \<^verbatim>\<open>extension = path.suffix.lower()\<close>, the suffix of the file name in lower case.
\<close>

theorem validate_dataset_other_extension:
  assumes "f_exists (fs file_path)" and "f_stat (fs file_path) = Inr stat"
    and "lower (path_suffix (path_name file_path)) \<noteq> ''.csv''"
    and "lower (path_suffix (path_name file_path)) \<noteq> ''.json''"
  shows "validate_dataset L fs file_path =
           Success (Unvalidated (lower (path_suffix (path_name file_path))) (st_size stat)
                      ''File type not specifically validated'')"
  using assms by (simp add: validate_dataset_def Let_def)

theorem validate_dataset_other_extension_witness:
  "validate_dataset sample_lib sample_files ''docs/notes.TXT'' =
     Success (Unvalidated ''.txt'' 3 ''File type not specifically validated'')"
proof -
  have v: "f_exists (sample_files ''docs/notes.TXT'')"
    "f_stat (sample_files ''docs/notes.TXT'') = Inr \<lparr>st_size = 3, st_mtime = 1700000002\<rparr>"
    by (simp_all add: sample_files_def)
  have x: "lower (path_suffix (path_name ''docs/notes.TXT'')) = ''.txt''"
    by (simp add: lower_def lower_char_def ascii_uppercase_def ascii_lowercase_def path_suffix_def
        path_name_def rfind_def)
  have ne: "lower (path_suffix (path_name ''docs/notes.TXT'')) \<noteq> ''.csv''"
    "lower (path_suffix (path_name ''docs/notes.TXT'')) \<noteq> ''.json''"
    unfolding x by simp_all
  show ?thesis using validate_dataset_other_extension[where fs = sample_files and file_path = "''docs/notes.TXT''" and L = sample_lib, OF v ne]
    unfolding x by simp
qed

subsection \<open>The router\<close>

lemma longest_prefix_none:
  "(\<forall>(p, b) \<in> set backends. take (length p) name \<noteq> p) \<Longrightarrow> longest_prefix backends name = None"
  by (induction backends) (auto split: option.splits)

lemma longest_prefix_some:
  "longest_prefix backends name = Some (p, b) \<Longrightarrow>
     (p, b) \<in> set backends \<and> take (length p) name = p \<and>
     (\<forall>(q, c) \<in> set backends. take (length q) name = q \<longrightarrow> length q \<le> length p)"
proof (induction backends arbitrary: p b)
  case Nil
  then show ?case by simp
next
  case (Cons x backends)
  obtain q c where x: "x = (q, c)" by (cases x)
  show ?case
  proof (cases "longest_prefix backends name")
    case None
    then have "\<forall>(q, c) \<in> set backends. take (length q) name \<noteq> q"
    proof (induction backends)
      case Nil
      then show ?case by simp
    next
      case (Cons y ys)
      then show ?case by (cases y) (auto split: option.splits if_splits)
    qed
    with Cons.prems None x show ?thesis by (auto split: if_splits)
  next
    case (Some y)
    obtain p' b' where y: "y = (p', b')" by (cases y)
    from Cons.IH[OF Some[unfolded y]] Cons.prems Some x y show ?thesis
      by (auto split: if_splits)
  qed
qed

text \<open>
  Claim C4. On the router over the servers \<^verbatim>\<open>local\<close> and \<^verbatim>\<open>remote\<close>,
  \<^verbatim>\<open>callTool("remote_check_status", args)\<close> is the result of the remote backend on the
  tool name \<^verbatim>\<open>check_status\<close> and the same arguments, unmodified;
  \<^verbatim>\<open>callTool("unknown_prefix_x", args)\<close> fails with \<^verbatim>\<open>UnknownTool\<close>, as does any call
  whose name starts with no registered prefix.
\<close>

theorem callTool_routes_by_prefix:
  fixes backend_of :: "string \<Rightarrow> string \<Rightarrow> 'a \<Rightarrow> 'r"
  shows "callTool (unified_proxy backend_of) ''remote_check_status'' args =
           Inr (backend_of ''remote'' ''check_status'' args) \<and>
         callTool (unified_proxy backend_of) ''unknown_prefix_x'' args =
           Inl (UnknownTool ''unknown_prefix_x'') \<and>
         ((\<forall>(p, b) \<in> set backends. take (length p) name \<noteq> p) \<longrightarrow>
            callTool backends name args = Inl (UnknownTool name))"
  by (simp add: callTool_def unified_proxy_def mcp_servers_def tool_prefix_def longest_prefix_none)

theorem callTool_routes_by_prefix_witness:
  "take 6 ''list_tools'' \<noteq> ''local_'' \<and> take 7 ''list_tools'' \<noteq> ''remote_'' \<and>
   callTool (unified_proxy sample_backend) ''list_tools'' () = Inl (UnknownTool ''list_tools'') \<and>
   callTool (unified_proxy sample_backend) ''remote_check_status'' () = Inr ''remote ran check_status''"
proof -
  have h: "\<forall>(p, b) \<in> set (unified_proxy sample_backend). take (length p) ''list_tools'' \<noteq> p"
    by (simp add: unified_proxy_def mcp_servers_def tool_prefix_def)
  from callTool_routes_by_prefix[of sample_backend "()" "unified_proxy sample_backend" "''list_tools''"] h
  show ?thesis by (simp add: sample_backend_def)
qed

subsection \<open>Further properties of the cache and the explorer\<close>

text \<open>
  \<^verbatim>\<open>get_cached_data\<close> on a cache id that is not in the cache fails as not found and
  leaves the cache as it is.
\<close>

theorem get_cached_data_unknown_id:
  assumes "data_cache cid = None"
  shows "get_cached_data now data_cache cid = (Failure (''Cache ID not found: '' @ cid), data_cache)"
  using assms by (simp add: get_cached_data_def)

theorem get_cached_data_unknown_id_witness:
  "fst (get_cached_data (at_time 2 10 0 0 0) (Map.empty :: string list data_cache) ''folder_x'') =
     Failure ''Cache ID not found: folder_x''"
proof -
  have "(Map.empty :: string list data_cache) ''folder_x'' = None" by simp
  from get_cached_data_unknown_id[OF this, of "at_time 2 10 0 0 0"] show ?thesis by simp
qed

text \<open>
  When the age that \<^verbatim>\<open>get_cached_data\<close> computes (the seconds component of the time
  since the entry's time stamp) exceeds the timeout, the entry is removed as part of
  reporting it expired, and the next \<^verbatim>\<open>get_cached_data\<close> on the same id fails as not
  found.
\<close>

theorem get_cached_data_evicts_expired:
  assumes "data_cache cid = Some cached"
    and "td_seconds (dt_sub now (timestamp cached)) > cache_timeout"
  shows "get_cached_data now data_cache cid =
           (Failure (''Cache expired (age: '' @
                       str_int (td_seconds (dt_sub now (timestamp cached))) @ ''s)''),
            data_cache(cid := None)) \<and>
         get_cached_data later (snd (get_cached_data now data_cache cid)) cid =
           (Failure (''Cache ID not found: '' @ cid), data_cache(cid := None))"
  using assms by (simp add: get_cached_data_def Let_def)

theorem get_cached_data_evicts_expired_witness:
  "fst (get_cached_data (at_time 2 12 0 0 0)
          (Map.empty(''folder_20250102_100000_4'' \<mapsto> sample_entry (at_time 2 10 0 0 0)))
          ''folder_20250102_100000_4'') = Failure ''Cache expired (age: 7200s)'' \<and>
   fst (get_cached_data (at_time 2 12 0 0 5)
          (snd (get_cached_data (at_time 2 12 0 0 0)
                  (Map.empty(''folder_20250102_100000_4'' \<mapsto> sample_entry (at_time 2 10 0 0 0)))
                  ''folder_20250102_100000_4''))
          ''folder_20250102_100000_4'') = Failure ''Cache ID not found: folder_20250102_100000_4''"
proof -
  let ?dc = "Map.empty(''folder_20250102_100000_4'' \<mapsto> sample_entry (at_time 2 10 0 0 0))"
  have e: "?dc ''folder_20250102_100000_4'' = Some (sample_entry (at_time 2 10 0 0 0))" by simp
  have age: "td_seconds (dt_sub (at_time 2 12 0 0 0) (timestamp (sample_entry (at_time 2 10 0 0 0)))) = 7200"
    by (simp add: td_seconds_dt_sub sample_entry_def elapsed_us_at_time)
  have a: "cache_timeout < td_seconds (dt_sub (at_time 2 12 0 0 0) (timestamp (sample_entry (at_time 2 10 0 0 0))))"
    unfolding age by (simp add: cache_timeout_def)
  have s: "str_int 7200 = ''7200''" by (simp add: str_int_def str_nat.simps digit_def)
  note w = get_cached_data_evicts_expired[where data_cache = ?dc and later = "at_time 2 12 0 0 5", OF e a]
  have 1: "fst (get_cached_data (at_time 2 12 0 0 0) ?dc ''folder_20250102_100000_4'') =
      Failure (''Cache expired (age: '' @ str_int 7200 @ ''s)'')"
    using w[THEN conjunct1] unfolding age by (metis fst_conv)
  have 2: "fst (get_cached_data (at_time 2 12 0 0 5)
          (snd (get_cached_data (at_time 2 12 0 0 0) ?dc ''folder_20250102_100000_4''))
          ''folder_20250102_100000_4'') = Failure (''Cache ID not found: '' @ ''folder_20250102_100000_4'')"
    using w[THEN conjunct2] by (metis fst_conv)
  show ?thesis using 1 2 unfolding s by simp
qed

text \<open>
  Any path that \<^verbatim>\<open>explore_tree\<close> reaches at a depth of at least \<^verbatim>\<open>max_depth\<close> is
  returned as a truncated node carrying only its name, without children.
\<close>

theorem explore_tree_truncates_at_depth:
  assumes "max_depth \<le> int current_depth"
  shows "explore_tree max_depth include_hidden p current_depth = Inr (TruncatedNode (p_name p))"
  using assms by simp

theorem explore_tree_truncates_at_depth_witness:
  "explore_tree 3 False (Directory ''sub'' [RegularFile ''b.txt'' 7 1700000000]) 3 =
     Inr (TruncatedNode ''sub'')"
proof -
  have "(3::int) \<le> int 3" by simp
  from explore_tree_truncates_at_depth[OF this, of False "Directory ''sub'' [RegularFile ''b.txt'' 7 1700000000]"]
  show ?thesis by simp
qed

end
